theory Spec2Isabelle
  imports Main "HOL-Library.Sublist"
begin

section \<open>Data model\<close>

text \<open>
  The component \<open>OrderCallAgent\<close> (src/app/src/components/OrderCallAgent.tsx) keeps its
  data in React state cells and one ref; the browser contributes a timer queue and a speech
  engine. All of it is gathered in one record, and every callback of the component is a
  function from that record to the updated one.
\<close>

datatype speaker = Agent | Customer | System

datatype call_state = Idle | Dialing | Speaking | AwaitingResponse | Resolved | Muted

datatype call_outcome = OutcomeConfirmed | OutcomeRescheduled | OutcomeCancelled | OutcomeNeedsSupport

datatype order_status = StatusPending | StatusConfirmed | StatusRequiresFollowup | StatusCancelled

datatype response_type = Confirm | Reschedule | Cancel | Query

record order_item =
  item_name :: string
  quantity :: int

text \<open>
  Modelled from the spec: the type \<open>Order\<close> is imported from \<open>@/data/orders\<close>, a file of this
  repository that is not among the sources. The fields are the ones section 3 of the
  specification lists and the component reads; the numbers \<open>total\<close> and \<open>quantity\<close> are
  taken to be integers.
\<close>

record order =
  order_id :: string
  customerName :: string
  phoneNumber :: string
  address :: string
  orderNotes :: "string option"
  items :: "order_item list"
  total :: int
  paymentMethod :: string
  deliverySlot :: string
  status :: order_status

record conversation_entry =
  speaker :: speaker
  message :: string
  timestamp :: nat
  awaitingResponse :: "bool option"

text \<open>The \<open>options\<close> argument of \<open>scheduleAgentLine\<close>; both fields are optional booleans.\<close>

record line_options =
  opt_awaitingResponse :: "bool option"
  opt_markResolved :: "bool option"

text \<open>
  The three \<open>updater\<close> closures passed to \<open>completeCall\<close> by the timers, and the one
  passed by \<open>escalateToSupport\<close>, as data.
\<close>

datatype order_updater =
    MarkConfirmed
  | MarkCancelled
  | MarkConfirmedSlot string
  | MarkRequiresFollowup

text \<open>
  What a pending \<open>window.setTimeout\<close> callback will do. The completion callbacks call the
  \<open>completeCall\<close> of the render in which they were created, so they carry the order that
  was selected then.
\<close>

datatype timer_action =
    AgentLine string line_options
  | CompleteCall call_outcome order_updater order

record timer =
  timer_id :: nat
  due :: nat
  action :: timer_action

text \<open>
  An utterance handed to \<open>window.speechSynthesis.speak\<close> whose \<open>end\<close> or \<open>error\<close> event has
  not been delivered yet. Both events call the same \<open>onEnd\<close>, which only depends on the
  options of the line. \<open>utt_cancelled\<close> records that \<open>speechSynthesis.cancel()\<close> was called
  after the utterance was queued, so it is no longer audible.
\<close>

record utterance =
  utt_text :: string
  utt_onEnd :: line_options
  utt_cancelled :: bool

record component =
  orders :: "order list"
  selectedOrderId :: "string option"
  conversation :: "conversation_entry list"
  callState :: call_state
  callOutcome :: "call_outcome option"
  rescheduleSlot :: string
  agentMuted :: bool
  timeoutsRef :: "nat list"
  supported :: bool
  clock :: nat
  nextTimeoutId :: nat
  timerQueue :: "timer list"
  utterances :: "utterance list"

text \<open>
  \<open>supported\<close> is the module constant \<open>isBrowser\<close>. \<open>clock\<close> is the time in milliseconds,
  which \<open>timestamp()\<close> reads (the ISO rendering of the date is left out). \<open>timerQueue\<close>
  holds the pending timers of the window in the order in which they will fire;
  \<open>utterances\<close> holds the utterances whose completion event is still to come, oldest
  first. \<open>activeUtteranceRef\<close> is written but never read and is left out.
\<close>

section \<open>Text helpers\<close>

definition RESCHEDULE_OPTIONS :: "string list" where
  "RESCHEDULE_OPTIONS =
     [''Today, 7PM - 9PM'', ''Tomorrow, 9AM - 12PM'', ''Tomorrow, 2PM - 5PM'',
      ''Saturday, 11AM - 1PM'']"

text \<open>The decimal digits of a natural number, as a template literal prints a number.\<close>

fun digitsOf :: "nat \<Rightarrow> string" where
  "digitsOf n =
     (if n < 10 then [char_of (48 + n)]
      else digitsOf (n div 10) @ [char_of (48 + n mod 10)])"

declare digitsOf.simps [simp del]

definition numberToString :: "int \<Rightarrow> string" where
  "numberToString n = (if n < 0 then ''-'' @ digitsOf (nat (- n)) else digitsOf (nat n))"

text \<open>\<open>String.prototype.toLowerCase\<close> on the ASCII letters; other bytes are kept.\<close>

definition toLowerCase :: "string \<Rightarrow> string" where
  "toLowerCase =
     map (\<lambda>c. let n = (of_char c :: nat) in if 65 \<le> n \<and> n \<le> 90 then char_of (n + 32) else c)"

text \<open>\<open>Array.prototype.join\<close>.\<close>

fun join :: "string \<Rightarrow> string list \<Rightarrow> string" where
  "join sep [] = []"
| "join sep [x] = x"
| "join sep (x # y # ys) = x @ sep @ join sep (y # ys)"

definition itemText :: "order_item \<Rightarrow> string" where
  "itemText item =
     numberToString (quantity item) @ '' '' @ item_name item @
     (if quantity item > 1 then ''s'' else '''')"

text \<open>
  The messages of \<open>startCall\<close>. \<open>formatINR\<close> wraps \<open>Intl.NumberFormat\<close>, which is not part
  of the repository: the formatter is a parameter \<open>fmt\<close> of every function that prints an
  amount. The character after the phone number is U+2026 in UTF-8.
\<close>

definition dialingLine :: "order \<Rightarrow> string" where
  "dialingLine ord = ''Dialing '' @ phoneNumber ord @ [CHR 0xE2, CHR 0x80, CHR 0xA6]"

definition introLine :: "(int \<Rightarrow> string) \<Rightarrow> order \<Rightarrow> string" where
  "introLine fmt ord =
     ''Hello '' @ customerName ord @
     '', this is the Flipkart order validation desk. I'm calling to confirm your order '' @
     order_id ord @ '' for '' @ fmt (total ord) @ ''.''"

definition itemsLine :: "order \<Rightarrow> string" where
  "itemsLine ord =
     ''It includes '' @ join '', '' (map itemText (items ord)) @ '' with '' @
     toLowerCase (paymentMethod ord) @
     ''. Is everything correct so we can schedule delivery '' @ deliverySlot ord @ ''?''"

definition customerLines :: "response_type \<Rightarrow> string" where
  "customerLines ty =
     (case ty of
        Confirm \<Rightarrow> ''Yes, please go ahead.''
      | Reschedule \<Rightarrow> ''Could we deliver in a different slot?''
      | Cancel \<Rightarrow> ''I want to cancel this order.''
      | Query \<Rightarrow> ''Can you tell me the payment details once more?'')"

definition confirmLine :: string where
  "confirmLine =
     ''Perfect, I will confirm the order and send you the delivery updates on SMS right away.''"

definition thankYouLine :: string where
  "thankYouLine = ''Thank you for shopping with Flipkart. Have a great day!''"

definition slotOfferLine :: string where
  "slotOfferLine =
     ''Sure, I can help with that. I have a few delivery slots available, please pick the one that works best for you.''"

definition cancelLine :: string where
  "cancelLine =
     ''I understand. I will cancel the order right away and send a confirmation SMS. Thank you for your time.''"

definition queryLine :: "(int \<Rightarrow> string) \<Rightarrow> order \<Rightarrow> string" where
  "queryLine fmt ord =
     ''This order is '' @ fmt (total ord) @ '' with '' @ toLowerCase (paymentMethod ord) @
     ''. Would you like to proceed with the same plan?''"

definition slotChoiceLine :: "string \<Rightarrow> string" where
  "slotChoiceLine slot = ''Let's move it to '' @ slot @ ''.''"

definition rescheduledLine :: "string \<Rightarrow> string" where
  "rescheduledLine slot =
     ''Done, I have rescheduled your delivery to '' @ slot @
     ''. You will receive a confirmation SMS shortly.''"

definition closingLine :: string where
  "closingLine = ''Thanks for confirming. Have a great day!''"

definition escalationLine :: string where
  "escalationLine =
     ''I'll escalate this to a senior support specialist who will call you back within the next hour.''"

section \<open>The speech engine and the timers of the window\<close>

definition truthy :: "bool option \<Rightarrow> bool" where
  "truthy b = (b = Some True)"

text \<open>The \<open>onEnd\<close> callback that \<open>scheduleAgentLine\<close> passes to \<open>speak\<close>.\<close>

definition onEnd :: "line_options \<Rightarrow> component \<Rightarrow> component" where
  "onEnd opts s =
     (if truthy (opt_markResolved opts) then s\<lparr>callState := Resolved\<rparr>
      else if truthy (opt_awaitingResponse opts) then s\<lparr>callState := AwaitingResponse\<rparr>
      else s\<lparr>callState := Speaking\<rparr>)"

text \<open>\<open>window.speechSynthesis.cancel()\<close>: nothing queued so far stays audible.\<close>

definition cancel :: "component \<Rightarrow> component" where
  "cancel s = s\<lparr>utterances := map (\<lambda>u. u\<lparr>utt_cancelled := True\<rparr>) (utterances s)\<rparr>"

definition speak :: "string \<Rightarrow> line_options \<Rightarrow> component \<Rightarrow> component" where
  "speak text opts s =
     (if \<not> supported s then onEnd opts s
      else (cancel s)\<lparr>utterances :=
              utterances (cancel s) @
              [\<lparr>utt_text = text, utt_onEnd = opts, utt_cancelled = False\<rparr>]\<rparr>)"

definition stop :: "component \<Rightarrow> component" where
  "stop s = (if \<not> supported s then s else cancel s)"

text \<open>
  Timers fire in the order of their due times, and in the order of their creation when
  the due times are equal: a new timer goes behind every timer that is due no later.
\<close>

fun insertTimer :: "timer \<Rightarrow> timer list \<Rightarrow> timer list" where
  "insertTimer t [] = [t]"
| "insertTimer t (x # xs) = (if due x \<le> due t then x # insertTimer t xs else t # x # xs)"

text \<open>
  \<open>window.setTimeout(cb, delay)\<close> queues the callback and returns the id of the new timer.
\<close>

definition setTimeout :: "timer_action \<Rightarrow> nat \<Rightarrow> component \<Rightarrow> nat \<times> component" where
  "setTimeout cb delay s =
     (nextTimeoutId s,
      s\<lparr>timerQueue :=
           insertTimer \<lparr>timer_id = nextTimeoutId s, due = clock s + delay, action = cb\<rparr>
             (timerQueue s),
        nextTimeoutId := nextTimeoutId s + 1\<rparr>)"

definition clearTimeout :: "nat \<Rightarrow> component \<Rightarrow> component" where
  "clearTimeout tid s = s\<lparr>timerQueue := filter (\<lambda>t. timer_id t \<noteq> tid) (timerQueue s)\<rparr>"

section \<open>The callbacks of the component\<close>

definition selectedOrder :: "component \<Rightarrow> order option" where
  "selectedOrder s =
     (case selectedOrderId s of
        None \<Rightarrow> None
      | Some i \<Rightarrow> find (\<lambda>ord. order_id ord = i) (orders s))"

definition resetCall :: "component \<Rightarrow> component" where
  "resetCall s =
     (let s1 = fold clearTimeout (timeoutsRef s) s;
          s2 = s1\<lparr>timeoutsRef := []\<rparr>;
          s3 = stop s2
      in s3\<lparr>conversation := [], callState := Idle, callOutcome := None,
            rescheduleSlot := ''''\<rparr>)"

definition addMessage :: "conversation_entry \<Rightarrow> component \<Rightarrow> component" where
  "addMessage entry s = s\<lparr>conversation := conversation s @ [entry]\<rparr>"

definition scheduleAgentLine :: "string \<Rightarrow> nat \<Rightarrow> line_options \<Rightarrow> component \<Rightarrow> component" where
  "scheduleAgentLine text delay opts s =
     (let (timeoutId, s1) = setTimeout (AgentLine text opts) delay s
      in s1\<lparr>timeoutsRef := timeoutsRef s1 @ [timeoutId]\<rparr>)"

text \<open>The body of the callback that \<open>scheduleAgentLine\<close> hands to \<open>setTimeout\<close>.\<close>

definition agentLineFires :: "string \<Rightarrow> line_options \<Rightarrow> component \<Rightarrow> component" where
  "agentLineFires text opts s =
     (let s1 = addMessage \<lparr>speaker = Agent, message = text, timestamp = clock s,
                            awaitingResponse = opt_awaitingResponse opts\<rparr> s;
          s2 = s1\<lparr>callState := Speaking\<rparr>
      in speak text opts s2)"

definition startCall :: "(int \<Rightarrow> string) \<Rightarrow> component \<Rightarrow> component" where
  "startCall fmt s =
     (case selectedOrder s of
        None \<Rightarrow> s
      | Some ord \<Rightarrow>
          (let s1 = resetCall s;
               s2 = s1\<lparr>callState := Dialing\<rparr>;
               s3 = addMessage \<lparr>speaker = System, message = dialingLine ord,
                                 timestamp = clock s2, awaitingResponse = None\<rparr> s2;
               introDelay = 1200;
               s4 = scheduleAgentLine (introLine fmt ord) introDelay
                      \<lparr>opt_awaitingResponse = Some False, opt_markResolved = None\<rparr> s3
           in scheduleAgentLine (itemsLine ord) (introDelay + 2200)
                \<lparr>opt_awaitingResponse = Some True, opt_markResolved = None\<rparr> s4))"

fun applyUpdater :: "order_updater \<Rightarrow> order \<Rightarrow> order" where
  "applyUpdater MarkConfirmed ord = ord\<lparr>status := StatusConfirmed\<rparr>"
| "applyUpdater MarkCancelled ord = ord\<lparr>status := StatusCancelled\<rparr>"
| "applyUpdater (MarkConfirmedSlot slot) ord =
     ord\<lparr>status := StatusConfirmed, deliverySlot := slot\<rparr>"
| "applyUpdater MarkRequiresFollowup ord = ord\<lparr>status := StatusRequiresFollowup\<rparr>"

text \<open>
  \<open>completeCall\<close> reads the \<open>selectedOrder\<close> of the render that created it, the first
  argument here.
\<close>

definition completeCall ::
    "order option \<Rightarrow> call_outcome \<Rightarrow> order_updater \<Rightarrow> component \<Rightarrow> component" where
  "completeCall sel outcome orderUpdater s =
     (case sel of
        None \<Rightarrow> s
      | Some selected \<Rightarrow>
          s\<lparr>orders :=
               map (\<lambda>ord. if order_id ord = order_id selected then applyUpdater orderUpdater ord
                          else ord) (orders s),
            callOutcome := Some outcome,
            callState := Resolved\<rparr>)"

definition handleCustomerResponse ::
    "(int \<Rightarrow> string) \<Rightarrow> response_type \<Rightarrow> component \<Rightarrow> component" where
  "handleCustomerResponse fmt ty s =
     (case selectedOrder s of
        None \<Rightarrow> s
      | Some ord \<Rightarrow>
          (let s1 = addMessage \<lparr>speaker = Customer, message = customerLines ty,
                                 timestamp = clock s, awaitingResponse = None\<rparr> s
           in case ty of
                Confirm \<Rightarrow>
                  (let s2 = scheduleAgentLine confirmLine 400
                              \<lparr>opt_awaitingResponse = Some False, opt_markResolved = None\<rparr> s1;
                       s3 = scheduleAgentLine thankYouLine 2000
                              \<lparr>opt_awaitingResponse = Some False, opt_markResolved = Some True\<rparr> s2;
                       (timeoutId, s4) =
                         setTimeout (CompleteCall OutcomeConfirmed MarkConfirmed ord) 2500 s3
                   in s4\<lparr>timeoutsRef := timeoutsRef s4 @ [timeoutId]\<rparr>)
              | Reschedule \<Rightarrow>
                  (let s2 = s1\<lparr>callState := AwaitingResponse,
                               callOutcome := Some OutcomeRescheduled,
                               rescheduleSlot := ''''\<rparr>
                   in scheduleAgentLine slotOfferLine 500
                        \<lparr>opt_awaitingResponse = Some True, opt_markResolved = None\<rparr> s2)
              | Cancel \<Rightarrow>
                  (let s2 = scheduleAgentLine cancelLine 700
                              \<lparr>opt_awaitingResponse = Some False, opt_markResolved = Some True\<rparr> s1;
                       (timeoutId, s3) =
                         setTimeout (CompleteCall OutcomeCancelled MarkCancelled ord) 1400 s2
                   in s3\<lparr>timeoutsRef := timeoutsRef s3 @ [timeoutId]\<rparr>)
              | Query \<Rightarrow>
                  scheduleAgentLine (queryLine fmt ord) 700
                    \<lparr>opt_awaitingResponse = Some True, opt_markResolved = None\<rparr> s1))"

definition handleRescheduleSelection :: "string \<Rightarrow> component \<Rightarrow> component" where
  "handleRescheduleSelection slot s =
     (case selectedOrder s of
        None \<Rightarrow> s
      | Some ord \<Rightarrow>
          (let s1 = s\<lparr>rescheduleSlot := slot\<rparr>;
               s2 = addMessage \<lparr>speaker = Customer, message = slotChoiceLine slot,
                                 timestamp = clock s1, awaitingResponse = None\<rparr> s1;
               s3 = scheduleAgentLine (rescheduledLine slot) 500
                      \<lparr>opt_awaitingResponse = Some False, opt_markResolved = None\<rparr> s2;
               s4 = scheduleAgentLine closingLine 2000
                      \<lparr>opt_awaitingResponse = Some False, opt_markResolved = Some True\<rparr> s3;
               (timeoutId, s5) =
                 setTimeout (CompleteCall OutcomeRescheduled (MarkConfirmedSlot slot) ord) 2300 s4
           in s5\<lparr>timeoutsRef := timeoutsRef s5 @ [timeoutId]\<rparr>))"

definition escalateToSupport :: "component \<Rightarrow> component" where
  "escalateToSupport s =
     (case selectedOrder s of
        None \<Rightarrow> s
      | Some ord \<Rightarrow>
          (let s1 = addMessage \<lparr>speaker = Agent, message = escalationLine,
                                 timestamp = clock s, awaitingResponse = None\<rparr> s
           in completeCall (Some ord) OutcomeNeedsSupport MarkRequiresFollowup s1))"

text \<open>
  \<open>toggleMute\<close>, together with the effect on \<open>agentMuted\<close> that calls \<open>stop()\<close> once more
  after a mute.
\<close>

definition toggleMute :: "component \<Rightarrow> component" where
  "toggleMute s =
     (let next = \<not> agentMuted s;
          s1 = (if next then (stop s)\<lparr>callState := Muted\<rparr>
                else s\<lparr>callState := (if conversation s \<noteq> [] then AwaitingResponse else Dialing)\<rparr>);
          s2 = s1\<lparr>agentMuted := next\<rparr>
      in if agentMuted s2 then stop s2 else s2)"

definition callInFlight :: "component \<Rightarrow> bool" where
  "callInFlight s = (callState s \<noteq> Idle \<and> callState s \<noteq> Resolved)"

text \<open>The \<open>onClick\<close> of an order button in the list.\<close>

definition selectOrder :: "string \<Rightarrow> component \<Rightarrow> component" where
  "selectOrder i s = (if callInFlight s then s else resetCall (s\<lparr>selectedOrderId := Some i\<rparr>))"

section \<open>Events\<close>

definition runTimer :: "timer_action \<Rightarrow> component \<Rightarrow> component" where
  "runTimer a s =
     (case a of
        AgentLine text opts \<Rightarrow> agentLineFires text opts s
      | CompleteCall outcome upd ord \<Rightarrow> completeCall (Some ord) outcome upd s)"

text \<open>The window runs the callback of the first pending timer, no earlier than it is due.\<close>

definition timerFires :: "component \<Rightarrow> component" where
  "timerFires s =
     (case timerQueue s of
        [] \<Rightarrow> s
      | t # ts \<Rightarrow> runTimer (action t) (s\<lparr>timerQueue := ts, clock := max (clock s) (due t)\<rparr>))"

text \<open>The speech engine delivers the \<open>end\<close> or \<open>error\<close> event of the oldest utterance.\<close>

definition utteranceEnds :: "component \<Rightarrow> component" where
  "utteranceEnds s =
     (case utterances s of
        [] \<Rightarrow> s
      | u # us \<Rightarrow> onEnd (utt_onEnd u) (s\<lparr>utterances := us\<rparr>))"

definition elapse :: "nat \<Rightarrow> component \<Rightarrow> component" where
  "elapse d s = s\<lparr>clock := clock s + d\<rparr>"

datatype event =
    StartCall
  | CustomerResponse response_type
  | RescheduleSelection string
  | EscalateToSupport
  | ToggleMute
  | ResetCall
  | SelectOrder string
  | TimerFires
  | UtteranceEnds
  | Elapse nat

fun step :: "(int \<Rightarrow> string) \<Rightarrow> event \<Rightarrow> component \<Rightarrow> component" where
  "step fmt StartCall s = startCall fmt s"
| "step fmt (CustomerResponse ty) s = handleCustomerResponse fmt ty s"
| "step fmt (RescheduleSelection slot) s = handleRescheduleSelection slot s"
| "step fmt EscalateToSupport s = escalateToSupport s"
| "step fmt ToggleMute s = toggleMute s"
| "step fmt ResetCall s = resetCall s"
| "step fmt (SelectOrder i) s = selectOrder i s"
| "step fmt TimerFires s = timerFires s"
| "step fmt UtteranceEnds s = utteranceEnds s"
| "step fmt (Elapse d) s = elapse d s"

fun run :: "(int \<Rightarrow> string) \<Rightarrow> event list \<Rightarrow> component \<Rightarrow> component" where
  "run fmt [] s = s"
| "run fmt (e # es) s = run fmt es (step fmt e s)"

text \<open>The events that are not operator input.\<close>

fun isEnvironment :: "event \<Rightarrow> bool" where
  "isEnvironment TimerFires = True"
| "isEnvironment UtteranceEnds = True"
| "isEnvironment (Elapse d) = True"
| "isEnvironment e = False"

text \<open>
  The initial render: \<open>useState(initialOrders)\<close>, \<open>useState(initialOrders[0]?.id ?? null)\<close>
  and the other initial values. \<open>initialOrders\<close> comes from \<open>@/data/orders\<close> and is a
  parameter, as is whether the browser has speech synthesis.
\<close>

definition initial :: "order list \<Rightarrow> bool \<Rightarrow> component" where
  "initial initialOrders isBrowser =
     \<lparr>orders = initialOrders,
      selectedOrderId = (case initialOrders of [] \<Rightarrow> None | ord # _ \<Rightarrow> Some (order_id ord)),
      conversation = [],
      callState = Idle,
      callOutcome = None,
      rescheduleSlot = '''',
      agentMuted = False,
      timeoutsRef = [],
      supported = isBrowser,
      clock = 0,
      nextTimeoutId = 1,
      timerQueue = [],
      utterances = []\<rparr>"

inductive reachable :: "(int \<Rightarrow> string) \<Rightarrow> order list \<Rightarrow> bool \<Rightarrow> component \<Rightarrow> bool"
  for fmt :: "int \<Rightarrow> string" and initialOrders :: "order list" and isBrowser :: bool where
  reachable_initial: "reachable fmt initialOrders isBrowser (initial initialOrders isBrowser)"
| reachable_step: "reachable fmt initialOrders isBrowser s \<Longrightarrow> reachable fmt initialOrders isBrowser (step fmt e s)"

section \<open>What the presentation layer offers\<close>

text \<open>
  The callbacks themselves only check that an order is selected. The JSX decides which
  buttons exist: the main button calls \<open>toggleMute\<close> while a call is in flight and
  \<open>startCall\<close> otherwise, the second button is End Call or Replay Script, the response
  buttons are rendered in \<open>awaiting_response\<close>, the slot buttons while the outcome is
  \<open>rescheduled\<close> and no slot is recorded, and the whole console only when an order is
  selected. A timer fires when one is pending; time passes by \<open>d\<close> when that leaves no
  pending timer overdue.
\<close>

fun offered :: "event \<Rightarrow> component \<Rightarrow> bool" where
  "offered StartCall s = (selectedOrder s \<noteq> None \<and> \<not> callInFlight s)"
| "offered (CustomerResponse ty) s = (selectedOrder s \<noteq> None \<and> callState s = AwaitingResponse)"
| "offered (RescheduleSelection slot) s =
     (selectedOrder s \<noteq> None \<and> callOutcome s = Some OutcomeRescheduled \<and> rescheduleSlot s = []
      \<and> slot \<in> set RESCHEDULE_OPTIONS)"
| "offered EscalateToSupport s = (selectedOrder s \<noteq> None)"
| "offered ToggleMute s = (selectedOrder s \<noteq> None \<and> callInFlight s)"
| "offered ResetCall s = (selectedOrder s \<noteq> None \<and> callInFlight s)"
| "offered (SelectOrder i) s = (i \<in> set (map order_id (orders s)))"
| "offered TimerFires s = (timerQueue s \<noteq> [])"
| "offered UtteranceEnds s = (utterances s \<noteq> [])"
| "offered (Elapse d) s = list_all (\<lambda>t. clock s + d \<le> due t) (timerQueue s)"

fun offeredRun :: "(int \<Rightarrow> string) \<Rightarrow> event list \<Rightarrow> component \<Rightarrow> bool" where
  "offeredRun fmt [] s = True"
| "offeredRun fmt (e # es) s = (offered e s \<and> offeredRun fmt es (step fmt e s))"

text \<open>Nothing is pending: no timer, and no completion event of an utterance.\<close>

definition quiescent :: "component \<Rightarrow> bool" where
  "quiescent s = (timerQueue s = [] \<and> utterances s = [])"

section \<open>Sample data\<close>

text \<open>An order and a formatter for the concrete runs below.\<close>

definition sampleOrder :: order where
  "sampleOrder =
     \<lparr>order_id = ''FK-1001'', customerName = ''Asha'', phoneNumber = ''+91 90000 00001'',
      address = ''12 MG Road'', orderNotes = None,
      items = [\<lparr>item_name = ''Phone Case'', quantity = 2\<rparr>,
               \<lparr>item_name = ''Charger'', quantity = 1\<rparr>],
      total = 1499, paymentMethod = ''Cash on Delivery'', deliverySlot = ''Today, 4PM - 6PM'',
      status = StatusPending\<rparr>"

definition sampleFormat :: "int \<Rightarrow> string" where
  "sampleFormat n = ''INR '' @ numberToString n"

text \<open>The operator starts the call for the sample order and mutes it at once.\<close>

definition mutedWhileDialing :: component where
  "mutedWhileDialing = run sampleFormat [StartCall, ToggleMute] (initial [sampleOrder] False)"

text \<open>The sample call after both introduction lines, waiting for the first answer.\<close>

definition awaitingFirstAnswer :: component where
  "awaitingFirstAnswer =
     run sampleFormat [StartCall, TimerFires, TimerFires] (initial [sampleOrder] False)"

text \<open>The operator has chosen the reschedule response in that state.\<close>

definition rescheduleRequested :: component where
  "rescheduleRequested =
     run sampleFormat [StartCall, TimerFires, TimerFires, CustomerResponse Reschedule]
       (initial [sampleOrder] False)"

text \<open>The sample call muted and unmuted again before the first introduction line.\<close>

definition unmutedWhileDialing :: component where
  "unmutedWhileDialing =
     run sampleFormat [StartCall, ToggleMute, ToggleMute] (initial [sampleOrder] False)"

text \<open>The sample call right after it was started.\<close>

definition dialingCall :: component where
  "dialingCall = run sampleFormat [StartCall] (initial [sampleOrder] False)"

text \<open>The operator has chosen the confirm response after both introduction lines.\<close>

definition confirmChosen :: component where
  "confirmChosen =
     run sampleFormat [StartCall, TimerFires, TimerFires, CustomerResponse Confirm]
       (initial [sampleOrder] False)"

text \<open>
  With speech synthesis: the operator escalates while the second introduction line is
  being spoken and replays the script; the events of the two cancelled utterances arrive
  after the new call has started.
\<close>

definition restartedWhileSpeaking :: component where
  "restartedWhileSpeaking =
     run sampleFormat
       [StartCall, TimerFires, TimerFires, EscalateToSupport, StartCall, UtteranceEnds,
        UtteranceEnds]
       (initial [sampleOrder] True)"

text \<open>
  The operator chooses the query response and at once the confirm response; the first two
  of the four timers have fired.
\<close>

definition answeredTwice :: component where
  "answeredTwice =
     run sampleFormat
       [StartCall, TimerFires, TimerFires, CustomerResponse Query, CustomerResponse Confirm,
        TimerFires, TimerFires]
       (initial [sampleOrder] False)"

text \<open>
  The operator chooses reschedule and at once a slot, before the agent has offered the
  menu; the first of the four timers has fired.
\<close>

definition slotChosenEarly :: component where
  "slotChosenEarly =
     run sampleFormat
       [StartCall, TimerFires, TimerFires, CustomerResponse Reschedule,
        RescheduleSelection ''Tomorrow, 9AM - 12PM'', TimerFires]
       (initial [sampleOrder] False)"

text \<open>
  The operator chooses confirm, then at once reschedule and a slot, and all seven timers
  fire.
\<close>

definition overtakenReschedule :: component where
  "overtakenReschedule =
     run sampleFormat
       [StartCall, TimerFires, TimerFires, CustomerResponse Confirm, CustomerResponse Reschedule,
        RescheduleSelection ''Tomorrow, 9AM - 12PM'', TimerFires, TimerFires, TimerFires,
        TimerFires, TimerFires, TimerFires, TimerFires]
       (initial [sampleOrder] False)"

text \<open>
  The operator starts the call, mutes and unmutes it, chooses reschedule and a slot, and
  all six timers fire.
\<close>

definition rescheduleWhileDialing :: component where
  "rescheduleWhileDialing =
     run sampleFormat
       [StartCall, ToggleMute, ToggleMute, CustomerResponse Reschedule,
        RescheduleSelection ''Tomorrow, 9AM - 12PM'', TimerFires, TimerFires, TimerFires,
        TimerFires, TimerFires, TimerFires]
       (initial [sampleOrder] False)"

section \<open>Invariants and relations\<close>

text \<open>Every pending timer is recorded in \<open>timeoutsRef\<close>, so \<open>resetCall\<close> will clear it.\<close>

definition tracked :: "component \<Rightarrow> bool" where
  "tracked s = list_all (\<lambda>t. timer_id t \<in> set (timeoutsRef s)) (timerQueue s)"

text \<open>
  Two components that differ at most in \<open>callState\<close>, in the mute flag and in which
  utterances are still audible, and of which both or neither have a call in flight.
\<close>

definition sameScript :: "component \<Rightarrow> component \<Rightarrow> bool" where
  "sameScript a b =
     (orders a = orders b \<and> selectedOrderId a = selectedOrderId b
      \<and> conversation a = conversation b \<and> callOutcome a = callOutcome b
      \<and> rescheduleSlot a = rescheduleSlot b \<and> timeoutsRef a = timeoutsRef b
      \<and> supported a = supported b \<and> clock a = clock b
      \<and> nextTimeoutId a = nextTimeoutId b \<and> timerQueue a = timerQueue b
      \<and> map utt_text (utterances a) = map utt_text (utterances b)
      \<and> map utt_onEnd (utterances a) = map utt_onEnd (utterances b)
      \<and> callInFlight a = callInFlight b)"

section \<open>What is still to come\<close>

text \<open>
  The pending timers determine what the transcript, the orders and the outcome will be
  once they have all fired; the definitions below read that off the queue. They are used
  to follow a call through every order in which timers and utterance events can arrive.
\<close>

text \<open>A transcript line without its timestamp.\<close>

definition entryContent :: "conversation_entry \<Rightarrow> speaker \<times> string \<times> bool option" where
  "entryContent e = (speaker e, message e, awaitingResponse e)"

fun lineOf :: "timer_action \<Rightarrow> (speaker \<times> string \<times> bool option) list" where
  "lineOf (AgentLine text opts) = [(Agent, text, opt_awaitingResponse opts)]"
| "lineOf (CompleteCall outcome upd ord) = []"

text \<open>The transcript so far, followed by the lines of the pending timers.\<close>

definition transcriptAhead :: "component \<Rightarrow> (speaker \<times> string \<times> bool option) list" where
  "transcriptAhead s =
     map entryContent (conversation s) @ concat (map (\<lambda>t. lineOf (action t)) (timerQueue s))"

fun ordersAfter :: "timer_action \<Rightarrow> order list \<Rightarrow> order list" where
  "ordersAfter (AgentLine text opts) os = os"
| "ordersAfter (CompleteCall outcome upd sel) os =
     map (\<lambda>ord. if order_id ord = order_id sel then applyUpdater upd ord else ord) os"

fun outcomeAfter :: "timer_action \<Rightarrow> call_outcome option \<Rightarrow> call_outcome option" where
  "outcomeAfter (AgentLine text opts) out = out"
| "outcomeAfter (CompleteCall outcome upd sel) out = Some outcome"

definition ordersAhead :: "component \<Rightarrow> order list" where
  "ordersAhead s = fold (\<lambda>t. ordersAfter (action t)) (timerQueue s) (orders s)"

definition outcomeAhead :: "component \<Rightarrow> call_outcome option" where
  "outcomeAhead s = fold (\<lambda>t. outcomeAfter (action t)) (timerQueue s) (callOutcome s)"

text \<open>The state that the \<open>onEnd\<close> callback of a line sets.\<close>

definition endState :: "line_options \<Rightarrow> call_state" where
  "endState opts =
     (if opt_markResolved opts = Some True then Resolved
      else if opt_awaitingResponse opts = Some True then AwaitingResponse
      else Speaking)"

fun optionsOf :: "timer_action \<Rightarrow> line_options list" where
  "optionsOf (AgentLine text opts) = [opts]"
| "optionsOf (CompleteCall outcome upd ord) = []"

text \<open>
  The options of every \<open>onEnd\<close> call still to come, in order: those of the utterances
  in progress, then those of the lines whose timers are pending (with speech synthesis;
  without it \<open>onEnd\<close> runs inside the timer callback).
\<close>

definition pendingEnds :: "component \<Rightarrow> line_options list" where
  "pendingEnds s =
     map utt_onEnd (utterances s) @
     (if supported s then concat (map (\<lambda>t. optionsOf (action t)) (timerQueue s)) else [])"

fun lastTimerGives :: "call_state \<Rightarrow> bool \<Rightarrow> timer_action \<Rightarrow> bool" where
  "lastTimerGives X browser (AgentLine text opts) = (browser \<or> endState opts = X)"
| "lastTimerGives X browser (CompleteCall outcome upd ord) = (X = Resolved)"

text \<open>
  Whatever happens last among the pending timers and utterance events leaves the state
  \<open>X\<close>.
\<close>

definition endsIn :: "call_state \<Rightarrow> component \<Rightarrow> bool" where
  "endsIn X s =
     ((quiescent s \<longrightarrow> callState s = X)
      \<and> (timerQueue s \<noteq> [] \<longrightarrow> lastTimerGives X (supported s) (action (last (timerQueue s))))
      \<and> (pendingEnds s \<noteq> [] \<longrightarrow> endState (last (pendingEnds s)) = X))"

text \<open>Without speech synthesis no utterance is ever in progress.\<close>

definition silent :: "component \<Rightarrow> bool" where
  "silent s = (\<not> supported s \<longrightarrow> utterances s = [])"

text \<open>The three lines of \<open>startCall\<close>, without timestamps.\<close>

definition introScript :: "(int \<Rightarrow> string) \<Rightarrow> order \<Rightarrow> (speaker \<times> string \<times> bool option) list" where
  "introScript fmt ord =
     [(System, dialingLine ord, None),
      (Agent, introLine fmt ord, Some False),
      (Agent, itemsLine ord, Some True)]"

fun isAgentLine :: "timer_action \<Rightarrow> bool" where
  "isAgentLine (AgentLine msg opts) = True"
| "isAgentLine (CompleteCall outcome upd ord) = False"

text \<open>Every pending timer is an agent line and due by \<open>d\<close>.\<close>

definition linesDueBy :: "nat \<Rightarrow> timer list \<Rightarrow> bool" where
  "linesDueBy d q = list_all (\<lambda>t. due t \<le> d \<and> isAgentLine (action t)) q"

section \<open>An operator who waits for the agent\<close>

text \<open>
  The operator keeps pace with the agent when a customer response or a slot is chosen
  only while nothing is pending, mute is switched off only while nothing is pending, and
  a call is started only while no utterance is in progress. Everything else is allowed at
  any time.
\<close>

fun paceAllows :: "event \<Rightarrow> component \<Rightarrow> bool" where
  "paceAllows (CustomerResponse ty) s = quiescent s"
| "paceAllows (RescheduleSelection slot) s = quiescent s"
| "paceAllows ToggleMute s = (agentMuted s \<longrightarrow> quiescent s)"
| "paceAllows StartCall s = (utterances s = [])"
| "paceAllows e s = True"

fun paced :: "(int \<Rightarrow> string) \<Rightarrow> event list \<Rightarrow> component \<Rightarrow> bool" where
  "paced fmt [] s = True"
| "paced fmt (e # es) s = (paceAllows e s \<and> paced fmt es (step fmt e s))"

text \<open>The last line of the transcript is a customer line.\<close>

definition customerSpokeLast :: "component \<Rightarrow> bool" where
  "customerSpokeLast s = (conversation s \<noteq> [] \<and> speaker (last (conversation s)) = Customer)"

text \<open>
  The options of every \<open>onEnd\<close> call still to come, whether it will run in a timer
  callback or on an utterance event.
\<close>

definition callbackEnds :: "component \<Rightarrow> line_options list" where
  "callbackEnds s =
     map utt_onEnd (utterances s) @ concat (map (\<lambda>t. optionsOf (action t)) (timerQueue s))"

text \<open>
  Only the last pending \<open>onEnd\<close> can set \<open>awaiting_response\<close>, and if it does, no
  completion is pending.
\<close>

definition awaitingLast :: "component \<Rightarrow> bool" where
  "awaitingLast s =
     (list_all (\<lambda>opts. endState opts \<noteq> AwaitingResponse) (butlast (callbackEnds s))
      \<and> (callbackEnds s \<noteq> [] \<and> endState (last (callbackEnds s)) = AwaitingResponse
           \<longrightarrow> list_all (\<lambda>t. isAgentLine (action t)) (timerQueue s)))"

text \<open>
  In \<open>awaiting_response\<close> either nothing is pending or the customer line of a response
  is the last line of the transcript.
\<close>

definition atDecisionPoint :: "component \<Rightarrow> bool" where
  "atDecisionPoint s =
     (callState s = AwaitingResponse \<longrightarrow> quiescent s \<or> customerSpokeLast s)"

definition pacedInv :: "component \<Rightarrow> bool" where
  "pacedInv s = (tracked s \<and> silent s \<and> awaitingLast s \<and> atDecisionPoint s)"

section \<open>What pending completions do to an order\<close>

fun orderAfter :: "timer_action \<Rightarrow> order \<Rightarrow> order" where
  "orderAfter (AgentLine msg opts) ord = ord"
| "orderAfter (CompleteCall outcome upd sel) ord =
     (if order_id ord = order_id sel then applyUpdater upd ord else ord)"

text \<open>The pending timers are in the order of their due times.\<close>

definition queueSorted :: "component \<Rightarrow> bool" where
  "queueSorted s = sorted_wrt (\<lambda>a b. due a \<le> due b) (timerQueue s)"

text \<open>
  A pending completion belongs to the selected order; one that cancels is due within 1400
  ms and one that reschedules within 2300 ms, the delays with which they are created.
\<close>

fun completionInTime :: "string option \<Rightarrow> nat \<Rightarrow> nat \<Rightarrow> timer_action \<Rightarrow> bool" where
  "completionInTime sel now d (AgentLine msg opts) = True"
| "completionInTime sel now d (CompleteCall outcome MarkConfirmed ord) =
     (sel = Some (order_id ord))"
| "completionInTime sel now d (CompleteCall outcome MarkCancelled ord) =
     (sel = Some (order_id ord) \<and> d \<le> now + 1400)"
| "completionInTime sel now d (CompleteCall outcome (MarkConfirmedSlot slot) ord) =
     (sel = Some (order_id ord) \<and> d \<le> now + 2300)"
| "completionInTime sel now d (CompleteCall outcome MarkRequiresFollowup ord) = False"

definition completionsInTime :: "component \<Rightarrow> bool" where
  "completionsInTime s =
     list_all (\<lambda>t. completionInTime (selectedOrderId s) (clock s) (due t) (action t))
       (timerQueue s)"

section \<open>Basic facts\<close>

lemmas ops = startCall_def resetCall_def addMessage_def scheduleAgentLine_def setTimeout_def
  clearTimeout_def stop_def cancel_def speak_def onEnd_def truthy_def agentLineFires_def
  completeCall_def handleCustomerResponse_def handleRescheduleSelection_def escalateToSupport_def
  toggleMute_def callInFlight_def selectOrder_def runTimer_def timerFires_def utteranceEnds_def
  elapse_def selectedOrder_def initial_def Let_def

lemma applyUpdater_order_id [simp]: "order_id (applyUpdater upd ord) = order_id ord"
  by (cases upd) simp_all

lemma find_map_updater:
  "find (\<lambda>ord. order_id ord = i) os = Some ord \<Longrightarrow>
   find (\<lambda>ord. order_id ord = i)
     (map (\<lambda>ord. if order_id ord = j then applyUpdater upd ord else ord) os) =
   Some (if order_id ord = j then applyUpdater upd ord else ord)"
  by (induction os) (auto split: if_splits)

lemma selectedOrder_cong:
  "orders s' = orders s \<Longrightarrow> selectedOrderId s' = selectedOrderId s \<Longrightarrow>
   selectedOrder s' = selectedOrder s"
  by (simp add: selectedOrder_def split: option.splits)

lemma selectedOrder_completeCall:
  assumes "selectedOrder s = Some ord"
  shows "selectedOrder (completeCall (Some sel) outcome upd s) =
         Some (if order_id ord = order_id sel then applyUpdater upd ord else ord)"
  using assms
  by (auto simp: selectedOrder_def completeCall_def find_map_updater split: option.splits)

lemma set_insertTimer [simp]: "set (insertTimer t q) = insert t (set q)"
  by (induction q) auto

lemma fold_clearTimeout:
  "fold clearTimeout ids s =
   s\<lparr>timerQueue := filter (\<lambda>t. timer_id t \<notin> set ids) (timerQueue s)\<rparr>"
proof (induction ids arbitrary: s)
  case Nil
  show ?case by simp
next
  case (Cons i ids)
  have "fold clearTimeout (i # ids) s = fold clearTimeout ids (clearTimeout i s)"
    by simp
  also have "\<dots> = (clearTimeout i s)\<lparr>timerQueue :=
      filter (\<lambda>t. timer_id t \<notin> set ids) (timerQueue (clearTimeout i s))\<rparr>"
    by (rule Cons.IH)
  also have "\<dots> = s\<lparr>timerQueue := filter (\<lambda>t. timer_id t \<notin> set (i # ids)) (timerQueue s)\<rparr>"
    by (simp add: clearTimeout_def conj_commute)
  finally show ?case .
qed

lemma tracked_timerQueue_resetCall: "tracked s \<Longrightarrow> timerQueue (resetCall s) = []"
  by (simp add: resetCall_def fold_clearTimeout tracked_def stop_def cancel_def Let_def
      list_all_iff filter_empty_conv)

lemma find_order_id: "find (\<lambda>ord. order_id ord = i) os = Some ord \<Longrightarrow> order_id ord = i"
  by (induction os) (auto split: if_splits)

lemma selectedOrder_id: "selectedOrder s = Some ord \<Longrightarrow> selectedOrderId s = Some (order_id ord)"
  by (auto simp: selectedOrder_def dest: find_order_id split: option.splits)

lemma tracked_filter: "tracked s \<Longrightarrow> filter (\<lambda>t. timer_id t \<notin> set (timeoutsRef s)) (timerQueue s) = []"
  by (simp add: tracked_def list_all_iff filter_empty_conv)

lemma reachable_run: "reachable fmt os b s \<Longrightarrow> reachable fmt os b (run fmt evs s)"
  by (induction evs arbitrary: s) (auto intro: reachable_step)

lemma stop_eq:
  "stop s = s\<lparr>utterances := (if supported s then map (\<lambda>u. u\<lparr>utt_cancelled := True\<rparr>) (utterances s)
                                else utterances s)\<rparr>"
  by (simp add: stop_def cancel_def)

lemma onEnd_eq:
  "onEnd opts s =
   s\<lparr>callState := (if opt_markResolved opts = Some True then Resolved
                      else if opt_awaitingResponse opts = Some True then AwaitingResponse
                      else Speaking)\<rparr>"
  by (simp add: onEnd_def truthy_def)

lemma speak_eq:
  "speak text opts s =
   s\<lparr>callState := (if supported s then callState s
                      else if opt_markResolved opts = Some True then Resolved
                      else if opt_awaitingResponse opts = Some True then AwaitingResponse
                      else Speaking),
     utterances := (if supported s
                    then map (\<lambda>u. u\<lparr>utt_cancelled := True\<rparr>) (utterances s) @
                         [\<lparr>utt_text = text, utt_onEnd = opts, utt_cancelled = False\<rparr>]
                    else utterances s)\<rparr>"
  by (simp add: speak_def onEnd_eq cancel_def)

lemma toggleMute_eq:
  "toggleMute s =
   s\<lparr>callState := (if agentMuted s
                      then (if conversation s \<noteq> [] then AwaitingResponse else Dialing)
                      else Muted),
     agentMuted := \<not> agentMuted s,
     utterances := (if \<not> agentMuted s \<and> supported s
                    then map (\<lambda>u. u\<lparr>utt_cancelled := True\<rparr>) (utterances s)
                    else utterances s)\<rparr>"
  by (simp add: toggleMute_def stop_eq Let_def comp_def)

lemma resetCall_eq:
  "resetCall s =
   s\<lparr>conversation := [], callState := Idle, callOutcome := None, rescheduleSlot := [],
     timeoutsRef := [],
     timerQueue := filter (\<lambda>t. timer_id t \<notin> set (timeoutsRef s)) (timerQueue s),
     utterances := (if supported s then map (\<lambda>u. u\<lparr>utt_cancelled := True\<rparr>) (utterances s)
                    else utterances s)\<rparr>"
  by (simp add: resetCall_def fold_clearTimeout stop_eq Let_def)

lemma agentLineFires_eq:
  "agentLineFires text opts s =
   s\<lparr>conversation := conversation s @
        [\<lparr>speaker = Agent, message = text, timestamp = clock s,
          awaitingResponse = opt_awaitingResponse opts\<rparr>],
     callState := (if supported s then Speaking
                   else if opt_markResolved opts = Some True then Resolved
                   else if opt_awaitingResponse opts = Some True then AwaitingResponse
                   else Speaking),
     utterances := (if supported s
                    then map (\<lambda>u. u\<lparr>utt_cancelled := True\<rparr>) (utterances s) @
                         [\<lparr>utt_text = text, utt_onEnd = opts, utt_cancelled = False\<rparr>]
                    else utterances s)\<rparr>"
  by (simp add: agentLineFires_def addMessage_def speak_eq Let_def)

lemmas nf = stop_eq onEnd_eq speak_eq toggleMute_eq resetCall_eq agentLineFires_eq
  addMessage_def scheduleAgentLine_def setTimeout_def completeCall_def
  startCall_def handleCustomerResponse_def handleRescheduleSelection_def escalateToSupport_def
  callInFlight_def selectOrder_def runTimer_def timerFires_def utteranceEnds_def
  elapse_def Let_def

section \<open>Escalation\<close>

text \<open>
  C6. In every state in which an order is selected, \<open>escalateToSupport\<close> sets the outcome
  to \<open>needs_support\<close> and the state to \<open>resolved\<close>, and the selected order is afterwards
  the same order with status \<open>requires_followup\<close>. The transcript only gains the
  escalation line, whatever it held before.
\<close>

theorem escalateToSupport_resolves:
  assumes "selectedOrder s = Some ord"
  shows "callOutcome (escalateToSupport s) = Some OutcomeNeedsSupport
       \<and> callState (escalateToSupport s) = Resolved
       \<and> selectedOrder (escalateToSupport s) = Some (ord\<lparr>status := StatusRequiresFollowup\<rparr>)
       \<and> conversation (escalateToSupport s) =
           conversation s @ [\<lparr>speaker = Agent, message = escalationLine, timestamp = clock s,
                               awaitingResponse = None\<rparr>]"
proof -
  let ?s1 = "addMessage \<lparr>speaker = Agent, message = escalationLine, timestamp = clock s,
                          awaitingResponse = None\<rparr> s"
  have sel: "selectedOrder ?s1 = Some ord"
    using assms selectedOrder_cong [of ?s1 s] by (simp add: addMessage_def)
  have esc: "escalateToSupport s =
             completeCall (Some ord) OutcomeNeedsSupport MarkRequiresFollowup ?s1"
    using assms by (simp add: escalateToSupport_def)
  show ?thesis
    unfolding esc
    using selectedOrder_completeCall [OF sel, of ord OutcomeNeedsSupport MarkRequiresFollowup]
    by (simp add: completeCall_def addMessage_def)
qed

theorem escalateToSupport_resolves_witness:
  "selectedOrder mutedWhileDialing = Some sampleOrder
   \<and> callOutcome (escalateToSupport mutedWhileDialing) = Some OutcomeNeedsSupport
   \<and> callState (escalateToSupport mutedWhileDialing) = Resolved
   \<and> selectedOrder (escalateToSupport mutedWhileDialing) =
       Some (sampleOrder\<lparr>status := StatusRequiresFollowup\<rparr>)"
proof -
  have sel: "selectedOrder mutedWhileDialing = Some sampleOrder"
    by (simp add: mutedWhileDialing_def ops sampleOrder_def)
  show ?thesis
    using sel escalateToSupport_resolves [OF sel] by simp
qed

section \<open>No order selected\<close>

text \<open>
  C9. When no order is selected (no id is selected, or the selected id matches no order),
  \<open>startCall\<close>, \<open>handleCustomerResponse\<close> for each of the four responses,
  \<open>handleRescheduleSelection\<close> and \<open>escalateToSupport\<close> return the component as it was:
  transcript, state, outcome and every order are unchanged.
\<close>

theorem no_selected_order_noop:
  assumes "selectedOrder s = None"
  shows "startCall fmt s = s \<and> handleCustomerResponse fmt ty s = s
       \<and> handleRescheduleSelection slot s = s \<and> escalateToSupport s = s"
  using assms
  by (simp add: startCall_def handleCustomerResponse_def handleRescheduleSelection_def
      escalateToSupport_def)

theorem no_selected_order_noop_witness:
  "selectedOrder (initial [] False) = None
   \<and> startCall sampleFormat (initial [] False) = initial [] False
   \<and> handleCustomerResponse sampleFormat Confirm (initial [] False) = initial [] False
   \<and> handleRescheduleSelection ''Today, 7PM - 9PM'' (initial [] False) = initial [] False
   \<and> escalateToSupport (initial [] False) = initial [] False"
proof -
  have none: "selectedOrder (initial [] False) = None"
    by (simp add: selectedOrder_def initial_def)
  show ?thesis
    using none no_selected_order_noop [OF none, of sampleFormat Confirm "''Today, 7PM - 9PM''"]
    by simp
qed

section \<open>Unmuting\<close>

text \<open>
  C1, as stated, fails: in the muted state reached by starting the sample call and muting
  it, the transcript holds the dialing line, and unmuting sets the state to
  \<open>awaiting_response\<close>, not to \<open>speaking\<close>. Every step of the run is offered by the
  presentation layer.
\<close>

theorem unmute_not_speaking:
  "offeredRun sampleFormat [StartCall, ToggleMute, ToggleMute] (initial [sampleOrder] False)
   \<and> callState mutedWhileDialing = Muted
   \<and> agentMuted mutedWhileDialing
   \<and> conversation mutedWhileDialing \<noteq> []
   \<and> callState (toggleMute mutedWhileDialing) \<noteq> Speaking"
  by (simp add: mutedWhileDialing_def ops sampleOrder_def)

text \<open>
  C1, amended. In the muted state (the state is \<open>muted\<close> and the mute flag is set),
  \<open>toggleMute\<close> sets the state to \<open>awaiting_response\<close> when the transcript has at least one
  line and to \<open>dialing\<close> when it is empty.
\<close>

theorem unmute_state:
  assumes "callState s = Muted" and "agentMuted s"
  shows "callState (toggleMute s) =
         (if conversation s \<noteq> [] then AwaitingResponse else Dialing)"
  using assms by (simp add: toggleMute_def)

theorem unmute_state_witness:
  "callState mutedWhileDialing = Muted \<and> agentMuted mutedWhileDialing
   \<and> callState (toggleMute mutedWhileDialing) = AwaitingResponse"
proof -
  have m: "callState mutedWhileDialing = Muted" and a: "agentMuted mutedWhileDialing"
    and c: "conversation mutedWhileDialing \<noteq> []"
    by (simp_all add: mutedWhileDialing_def ops sampleOrder_def)
  show ?thesis
    using m a c unmute_state [OF m a] by simp
qed

section \<open>When the outcome is set\<close>

text \<open>
  C2, as stated, fails: after the two introduction lines of the sample call the operator
  chooses the reschedule response, and the outcome is \<open>rescheduled\<close> while the state is
  \<open>awaiting_response\<close>, not \<open>resolved\<close>. Every step of the run is offered by the
  presentation layer.
\<close>

theorem outcome_before_resolved:
  "offeredRun sampleFormat [StartCall, TimerFires, TimerFires, CustomerResponse Reschedule]
       (initial [sampleOrder] False)
   \<and> callOutcome rescheduleRequested = Some OutcomeRescheduled
   \<and> callState rescheduleRequested = AwaitingResponse
   \<and> callState rescheduleRequested \<noteq> Resolved"
  by (simp add: rescheduleRequested_def ops sampleOrder_def)

text \<open>
  C2, amended. The outcome is null in the initial state, and whenever a step changes the
  outcome, then afterwards either the outcome is null (a reset), or the state is
  \<open>resolved\<close> (the step ran \<open>completeCall\<close>), or the step is the reschedule response, which
  sets the outcome to \<open>rescheduled\<close> and the state to \<open>awaiting_response\<close> before any slot
  is chosen.
\<close>

theorem outcome_set_with_resolved:
  assumes "callOutcome (step fmt e s) \<noteq> callOutcome s"
  shows "callOutcome (initial initialOrders isBrowser) = None
       \<and> (callOutcome (step fmt e s) = None
       \<or> callState (step fmt e s) = Resolved
       \<or> (e = CustomerResponse Reschedule \<and> callOutcome (step fmt e s) = Some OutcomeRescheduled
           \<and> callState (step fmt e s) = AwaitingResponse))"
proof (cases e)
  case StartCall
  then show ?thesis using assms by (cases "selectedOrder s") (simp_all add: nf initial_def)
next
  case (CustomerResponse ty)
  then show ?thesis using assms
    by (cases ty; cases "selectedOrder s") (simp_all add: nf initial_def)
next
  case (RescheduleSelection slot)
  then show ?thesis using assms by (cases "selectedOrder s") (simp_all add: nf initial_def)
next
  case EscalateToSupport
  then show ?thesis using assms by (cases "selectedOrder s") (simp_all add: nf initial_def)
next
  case ToggleMute
  then show ?thesis using assms by (simp add: initial_def nf)
next
  case ResetCall
  then show ?thesis using assms by (simp add: initial_def nf)
next
  case (SelectOrder i)
  then show ?thesis using assms by (simp add: initial_def nf split: if_splits)
next
  case TimerFires
  then show ?thesis using assms
    by (simp add: initial_def nf split: list.splits timer_action.splits)
next
  case UtteranceEnds
  then show ?thesis using assms by (simp add: initial_def nf split: list.splits)
next
  case (Elapse d)
  then show ?thesis using assms by (simp add: initial_def nf)
qed

theorem outcome_set_with_resolved_witness:
  "callOutcome (step sampleFormat (CustomerResponse Reschedule) awaitingFirstAnswer) \<noteq>
     callOutcome awaitingFirstAnswer
   \<and> callOutcome (step sampleFormat (CustomerResponse Reschedule) awaitingFirstAnswer) \<noteq> None
   \<and> callState (step sampleFormat (CustomerResponse Reschedule) awaitingFirstAnswer) \<noteq> Resolved
   \<and> callOutcome (step sampleFormat (CustomerResponse Reschedule) awaitingFirstAnswer) =
       Some OutcomeRescheduled
   \<and> callState (step sampleFormat (CustomerResponse Reschedule) awaitingFirstAnswer) =
       AwaitingResponse"
proof -
  let ?t = "step sampleFormat (CustomerResponse Reschedule) awaitingFirstAnswer"
  have ch: "callOutcome ?t \<noteq> callOutcome awaitingFirstAnswer"
    by (simp add: awaitingFirstAnswer_def ops sampleOrder_def)
  have nn: "callOutcome ?t \<noteq> None" and nr: "callState ?t \<noteq> Resolved"
    by (simp_all add: awaitingFirstAnswer_def ops sampleOrder_def)
  show ?thesis
    using ch nn nr outcome_set_with_resolved [OF ch, of "[sampleOrder]" False]
    by (auto simp del: step.simps)
qed

section \<open>A timer that leaves the decision point\<close>

text \<open>
  C3, as stated, fails: the operator starts the sample call, mutes it and unmutes it, which
  puts the session into \<open>awaiting_response\<close> while the timers of the introduction are
  pending. No customer response is chosen, and the first timer that fires moves the state
  to \<open>speaking\<close>. Every step of the run is offered by the presentation layer.
\<close>

theorem timer_leaves_awaiting_response:
  "offeredRun sampleFormat [StartCall, ToggleMute, ToggleMute, TimerFires]
       (initial [sampleOrder] False)
   \<and> callState unmutedWhileDialing = AwaitingResponse
   \<and> callState (step sampleFormat TimerFires unmutedWhileDialing) = Speaking"
  by (simp add: unmutedWhileDialing_def ops sampleOrder_def)

lemma step_env_quiescent:
  assumes "quiescent s" and "isEnvironment e"
  shows "step fmt e s = s\<lparr>clock := clock (step fmt e s)\<rparr>"
  using assms by (cases e) (simp_all add: quiescent_def nf)

lemma step_env_stays_quiescent:
  assumes "quiescent s" and "isEnvironment e"
  shows "quiescent (step fmt e s)"
  using assms by (cases e) (simp_all add: quiescent_def nf)

lemma run_env_quiescent:
  assumes "quiescent s" and "list_all isEnvironment evs"
  shows "run fmt evs s = s\<lparr>clock := clock (run fmt evs s)\<rparr>"
  using assms
proof (induction evs arbitrary: s)
  case Nil
  show ?case by simp
next
  case (Cons e evs)
  let ?t = "step fmt e s"
  have t: "?t = s\<lparr>clock := clock ?t\<rparr>"
    using Cons.prems by (intro step_env_quiescent) simp_all
  have q: "quiescent ?t"
    using Cons.prems by (intro step_env_stays_quiescent) simp_all
  have "run fmt (e # evs) s = run fmt evs ?t" by simp
  also have "\<dots> = ?t\<lparr>clock := clock (run fmt evs ?t)\<rparr>"
    using Cons.prems by (intro Cons.IH q) simp
  also have "\<dots> = s\<lparr>clock := clock (run fmt evs ?t)\<rparr>"
    by (subst t) simp
  finally show ?case by simp
qed

lemma env_step_no_new_timer:
  assumes "isEnvironment e"
  shows "set (timerQueue (step fmt e s)) \<subseteq> set (timerQueue s)"
  using assms by (cases e) (auto simp: nf split: list.splits timer_action.splits)

lemma env_run_no_new_timer:
  assumes "list_all isEnvironment evs"
  shows "set (timerQueue (run fmt evs s)) \<subseteq> set (timerQueue s)"
  using assms
proof (induction evs arbitrary: s)
  case Nil
  show ?case by simp
next
  case (Cons e evs)
  have "set (timerQueue (run fmt evs (step fmt e s))) \<subseteq> set (timerQueue (step fmt e s))"
    using Cons.prems by (intro Cons.IH) simp
  moreover have "set (timerQueue (step fmt e s)) \<subseteq> set (timerQueue s)"
    using Cons.prems by (intro env_step_no_new_timer) simp
  ultimately show ?case by simp
qed

section \<open>Reset\<close>

lemma tracked_step:
  assumes "tracked s"
  shows "tracked (step fmt e s)"
proof (cases e)
  case StartCall
  then show ?thesis using assms
    by (cases "selectedOrder s") (auto simp: nf tracked_def list_all_iff)
next
  case (CustomerResponse ty)
  then show ?thesis using assms
    by (cases ty; cases "selectedOrder s") (auto simp: nf tracked_def list_all_iff)
next
  case (RescheduleSelection slot)
  then show ?thesis using assms
    by (cases "selectedOrder s") (auto simp: nf tracked_def list_all_iff)
next
  case EscalateToSupport
  then show ?thesis using assms
    by (cases "selectedOrder s") (auto simp: nf tracked_def list_all_iff)
next
  case ToggleMute
  then show ?thesis using assms by (simp add: nf tracked_def)
next
  case ResetCall
  then show ?thesis using assms by (auto simp: nf tracked_def list_all_iff)
next
  case (SelectOrder i)
  then show ?thesis using assms by (auto simp: nf tracked_def list_all_iff)
next
  case TimerFires
  then show ?thesis using assms
    by (auto simp: nf tracked_def list_all_iff split: list.splits timer_action.splits)
next
  case UtteranceEnds
  then show ?thesis using assms
    by (auto simp: nf tracked_def list_all_iff split: list.splits)
next
  case (Elapse d)
  then show ?thesis using assms by (simp add: nf tracked_def)
qed

lemma reachable_tracked: "reachable fmt os b s \<Longrightarrow> tracked s"
  by (induction rule: reachable.induct) (simp_all add: tracked_step, simp add: tracked_def initial_def)

lemma env_step_conversation_empty:
  assumes "isEnvironment e" and "timerQueue s = []"
  shows "conversation (step fmt e s) = conversation s \<and> timerQueue (step fmt e s) = []"
  using assms by (cases e) (simp_all add: nf split: list.splits)

lemma env_run_conversation_empty:
  assumes "list_all isEnvironment evs" and "timerQueue s = []"
  shows "conversation (run fmt evs s) = conversation s"
  using assms
proof (induction evs arbitrary: s)
  case Nil
  show ?case by simp
next
  case (Cons e evs)
  then show ?case using env_step_conversation_empty [of e s fmt] by simp
qed

text \<open>
  C7. In every reachable state, \<open>resetCall\<close> leaves an empty transcript, state \<open>idle\<close>, no
  outcome, no chosen slot and no pending timer: every timer of the session was recorded in
  \<open>timeoutsRef\<close> and is cleared. Whatever timers, utterance events and time do after the
  reset, the transcript stays empty, so no line of the old session is appended.
\<close>

theorem resetCall_clears:
  assumes "reachable fmt initialOrders isBrowser s"
  shows "conversation (resetCall s) = [] \<and> callState (resetCall s) = Idle
       \<and> callOutcome (resetCall s) = None \<and> rescheduleSlot (resetCall s) = []
       \<and> timerQueue (resetCall s) = [] \<and> timeoutsRef (resetCall s) = []
       \<and> (\<forall>evs. list_all isEnvironment evs \<longrightarrow> conversation (run fmt evs (resetCall s)) = [])"
proof -
  have q: "timerQueue (resetCall s) = []"
    using assms by (intro tracked_timerQueue_resetCall reachable_tracked)
  have c: "conversation (resetCall s) = []"
    by (simp add: resetCall_eq)
  have "conversation (run fmt evs (resetCall s)) = []" if "list_all isEnvironment evs" for evs
    using env_run_conversation_empty [OF that q, of fmt] c by simp
  then show ?thesis using q by (simp add: resetCall_eq)
qed

theorem resetCall_clears_witness:
  "reachable sampleFormat [sampleOrder] False rescheduleRequested
   \<and> timerQueue rescheduleRequested \<noteq> []
   \<and> conversation rescheduleRequested \<noteq> []
   \<and> conversation (resetCall rescheduleRequested) = []
   \<and> timerQueue (resetCall rescheduleRequested) = []
   \<and> conversation (run sampleFormat [TimerFires, UtteranceEnds, Elapse 5000, TimerFires]
         (resetCall rescheduleRequested)) = []"
proof -
  have r: "reachable sampleFormat [sampleOrder] False rescheduleRequested"
    unfolding rescheduleRequested_def by (intro reachable_run reachable_initial)
  have l: "list_all isEnvironment [TimerFires, UtteranceEnds, Elapse 5000, TimerFires]"
    by simp
  have p: "timerQueue rescheduleRequested \<noteq> []" and c: "conversation rescheduleRequested \<noteq> []"
    by (simp_all add: rescheduleRequested_def ops sampleOrder_def)
  show ?thesis
    using r l p c resetCall_clears [OF r] by (simp del: run.simps)
qed

section \<open>Muting\<close>

lemma utt_text_cancelled [simp]: "utt_text \<circ> utt_cancelled_update f = utt_text"
  by (rule ext) simp

lemma utt_onEnd_cancelled [simp]: "utt_onEnd \<circ> utt_cancelled_update f = utt_onEnd"
  by (rule ext) simp

lemma sameScript_step:
  assumes "sameScript a b"
  shows "sameScript (step fmt e a) (step fmt e b)"
proof -
  have sel: "selectedOrder a = selectedOrder b"
    using assms by (intro selectedOrder_cong) (simp_all add: sameScript_def)
  show ?thesis
  proof (cases e)
    case StartCall
    then show ?thesis using assms sel
      by (cases "selectedOrder b") (simp_all add: nf sameScript_def)
  next
    case (CustomerResponse ty)
    then show ?thesis using assms sel
      by (cases ty; cases "selectedOrder b") (simp_all add: nf sameScript_def)
  next
    case (RescheduleSelection slot)
    then show ?thesis using assms sel
      by (cases "selectedOrder b") (simp_all add: nf sameScript_def)
  next
    case EscalateToSupport
    then show ?thesis using assms sel
      by (cases "selectedOrder b") (simp_all add: nf sameScript_def)
  next
    case ToggleMute
    then show ?thesis using assms by (simp add: nf sameScript_def)
  next
    case ResetCall
    then show ?thesis using assms by (simp add: nf sameScript_def)
  next
    case (SelectOrder i)
    then show ?thesis using assms by (simp add: nf sameScript_def)
  next
    case TimerFires
    then show ?thesis using assms
      by (simp add: nf sameScript_def split: list.splits timer_action.splits)
  next
    case UtteranceEnds
    then show ?thesis using assms
      by (cases "utterances a"; cases "utterances b") (simp_all add: nf sameScript_def)
  next
    case (Elapse d)
    then show ?thesis using assms by (simp add: nf sameScript_def)
  qed
qed

lemma sameScript_run:
  "sameScript a b \<Longrightarrow> sameScript (run fmt evs a) (run fmt evs b)"
  by (induction evs arbitrary: a b) (simp_all add: sameScript_step)

lemma sameScript_toggleMute: "callInFlight s \<Longrightarrow> sameScript (toggleMute s) s"
  by (simp add: nf sameScript_def)

lemma sameScript_trans: "sameScript a b \<Longrightarrow> sameScript b c \<Longrightarrow> sameScript a c"
  by (simp add: sameScript_def)

lemma run_append: "run fmt (xs @ ys) s = run fmt ys (run fmt xs s)"
  by (induction xs arbitrary: s) simp_all

text \<open>
  C8, as stated, fails. Without speech synthesis no audio ever plays, yet muting and
  unmuting the sample call right after its start changes the state from \<open>dialing\<close> to
  \<open>awaiting_response\<close>. The response buttons, which were not offered, are offered then:
  the operator confirms, and the transcript has the customer line before any agent line and
  the outcome is \<open>confirmed\<close>, where the call left alone shows the two introduction lines
  and no outcome.
\<close>

theorem unmute_changes_state_and_offers:
  "\<not> supported dialingCall
   \<and> callInFlight dialingCall
   \<and> callState dialingCall = Dialing
   \<and> callState (toggleMute (toggleMute dialingCall)) = AwaitingResponse
   \<and> \<not> offered (CustomerResponse Confirm) dialingCall
   \<and> offeredRun sampleFormat
       [ToggleMute, ToggleMute, CustomerResponse Confirm, TimerFires, TimerFires, TimerFires,
        TimerFires, TimerFires]
       dialingCall
   \<and> map speaker (conversation (run sampleFormat
       [ToggleMute, ToggleMute, CustomerResponse Confirm, TimerFires, TimerFires, TimerFires,
        TimerFires, TimerFires]
       dialingCall)) = [System, Customer, Agent, Agent, Agent, Agent]
   \<and> callOutcome (run sampleFormat
       [ToggleMute, ToggleMute, CustomerResponse Confirm, TimerFires, TimerFires, TimerFires,
        TimerFires, TimerFires]
       dialingCall) = Some OutcomeConfirmed
   \<and> map speaker (conversation (run sampleFormat [TimerFires, TimerFires] dialingCall)) =
       [System, Agent, Agent]
   \<and> callOutcome (run sampleFormat [TimerFires, TimerFires] dialingCall) = None"
  by (simp add: dialingCall_def ops sampleOrder_def)

text \<open>
  C8, amended. Let a call be in flight. Toggling mute changes neither the transcript, the
  outcome, the orders nor the pending timers, and this stays so under every later sequence
  of events: the run from the toggled state and the run from the untoggled state agree in
  everything except \<open>callState\<close>, the mute flag and which utterances are audible. The same
  holds for muting, letting any events happen, and unmuting while the call is in flight,
  compared with the run that has neither toggle. What the toggle does change is the mute
  flag and the state: muting sets the state to \<open>muted\<close>, unmuting sets it to
  \<open>awaiting_response\<close> when the transcript has a line and to \<open>dialing\<close> otherwise,
  whatever it was before, and the call stays in flight. The comparison is between runs
  with the same later events; the state after unmuting decides which buttons the operator
  is offered.
\<close>

theorem toggleMute_keeps_script:
  assumes "callInFlight s"
  shows "callState (toggleMute s) =
           (if agentMuted s then (if conversation s \<noteq> [] then AwaitingResponse else Dialing)
            else Muted)
       \<and> agentMuted (toggleMute s) = (\<not> agentMuted s)
       \<and> callInFlight (toggleMute s)
       \<and> conversation (toggleMute s) = conversation s
       \<and> callOutcome (toggleMute s) = callOutcome s
       \<and> orders (toggleMute s) = orders s
       \<and> timerQueue (toggleMute s) = timerQueue s
       \<and> sameScript (run fmt evs (toggleMute s)) (run fmt evs s)
       \<and> conversation (run fmt evs (toggleMute s)) = conversation (run fmt evs s)
       \<and> callOutcome (run fmt evs (toggleMute s)) = callOutcome (run fmt evs s)
       \<and> orders (run fmt evs (toggleMute s)) = orders (run fmt evs s)
       \<and> (callInFlight (run fmt evs (toggleMute s)) \<longrightarrow>
            sameScript (run fmt (ToggleMute # evs @ ToggleMute # evs') s) (run fmt (evs @ evs') s)
            \<and> conversation (run fmt (ToggleMute # evs @ ToggleMute # evs') s) =
                conversation (run fmt (evs @ evs') s)
            \<and> callOutcome (run fmt (ToggleMute # evs @ ToggleMute # evs') s) =
                callOutcome (run fmt (evs @ evs') s)
            \<and> orders (run fmt (ToggleMute # evs @ ToggleMute # evs') s) =
                orders (run fmt (evs @ evs') s))"
proof -
  let ?a = "run fmt evs (toggleMute s)" and ?b = "run fmt evs s"
  have one: "sameScript ?a ?b"
    using assms by (intro sameScript_run sameScript_toggleMute)
  have two: "sameScript (run fmt (ToggleMute # evs @ ToggleMute # evs') s) (run fmt (evs @ evs') s)"
    if "callInFlight ?a"
  proof -
    have "sameScript (toggleMute ?a) ?a"
      using that by (rule sameScript_toggleMute)
    then have "sameScript (toggleMute ?a) ?b"
      using one by (rule sameScript_trans)
    then have "sameScript (run fmt evs' (toggleMute ?a)) (run fmt evs' ?b)"
      by (rule sameScript_run)
    then show ?thesis by (simp add: run_append)
  qed
  have frame: "conversation (toggleMute s) = conversation s"
    "callOutcome (toggleMute s) = callOutcome s" "orders (toggleMute s) = orders s"
    "timerQueue (toggleMute s) = timerQueue s"
    by (simp_all add: toggleMute_eq)
  have change: "callState (toggleMute s) =
           (if agentMuted s then (if conversation s \<noteq> [] then AwaitingResponse else Dialing)
            else Muted)"
    "agentMuted (toggleMute s) = (\<not> agentMuted s)" "callInFlight (toggleMute s)"
    by (simp_all add: toggleMute_eq callInFlight_def)
  show ?thesis
    using one two frame change unfolding sameScript_def by blast
qed

theorem toggleMute_keeps_script_witness:
  "callInFlight awaitingFirstAnswer
   \<and> conversation (run sampleFormat [CustomerResponse Confirm, TimerFires, TimerFires, TimerFires]
         (toggleMute awaitingFirstAnswer)) =
       conversation (run sampleFormat [CustomerResponse Confirm, TimerFires, TimerFires, TimerFires]
         awaitingFirstAnswer)
   \<and> callOutcome (run sampleFormat [CustomerResponse Confirm, TimerFires, TimerFires, TimerFires]
         (toggleMute awaitingFirstAnswer)) = Some OutcomeConfirmed
   \<and> callState (toggleMute awaitingFirstAnswer) = Muted"
proof -
  have f: "callInFlight awaitingFirstAnswer"
    by (simp add: awaitingFirstAnswer_def ops sampleOrder_def)
  have o: "callOutcome (run sampleFormat [CustomerResponse Confirm, TimerFires, TimerFires, TimerFires]
         awaitingFirstAnswer) = Some OutcomeConfirmed"
    by (simp add: awaitingFirstAnswer_def ops sampleOrder_def)
  have m: "callState (toggleMute awaitingFirstAnswer) = Muted"
    by (simp add: awaitingFirstAnswer_def ops sampleOrder_def)
  show ?thesis
    using f o m
      toggleMute_keeps_script [OF f,
        of sampleFormat "[CustomerResponse Confirm, TimerFires, TimerFires, TimerFires]"]
    by (simp del: run.simps)
qed

section \<open>Following a call through every schedule\<close>

lemma transcriptAhead_step:
  assumes "isEnvironment e"
  shows "transcriptAhead (step fmt e s) = transcriptAhead s"
  using assms
  by (cases e) (simp_all add: nf transcriptAhead_def entryContent_def
      split: list.splits timer_action.splits)

lemma ordersAhead_step:
  assumes "isEnvironment e"
  shows "ordersAhead (step fmt e s) = ordersAhead s"
  using assms
  by (cases e) (simp_all add: nf ordersAhead_def split: list.splits timer_action.splits)

lemma outcomeAhead_step:
  assumes "isEnvironment e"
  shows "outcomeAhead (step fmt e s) = outcomeAhead s"
  using assms
  by (cases e) (simp_all add: nf outcomeAhead_def split: list.splits timer_action.splits)

lemma endsIn_step:
  assumes "isEnvironment e" and "endsIn X s"
  shows "endsIn X (step fmt e s)"
proof (cases e)
  case TimerFires
  show ?thesis
  proof (cases "timerQueue s")
    case Nil
    then show ?thesis using TimerFires assms(2) by (simp add: nf)
  next
    case (Cons t ts)
    show ?thesis
    proof (cases "action t")
      case (AgentLine msg opts)
      then show ?thesis using TimerFires Cons assms(2)
        by (auto simp: nf endsIn_def quiescent_def pendingEnds_def endState_def split: if_splits)
    next
      case (CompleteCall outcome upd ord)
      then show ?thesis using TimerFires Cons assms(2)
        by (auto simp: nf endsIn_def quiescent_def pendingEnds_def split: if_splits)
    qed
  qed
next
  case UtteranceEnds
  show ?thesis
  proof (cases "utterances s")
    case Nil
    then show ?thesis using UtteranceEnds assms(2) by (simp add: nf)
  next
    case (Cons u us)
    then show ?thesis using UtteranceEnds assms(2)
      by (auto simp: nf endsIn_def quiescent_def pendingEnds_def endState_def split: if_splits)
  qed
next
  case (Elapse d)
  then show ?thesis using assms(2)
    by (auto simp: elapse_def endsIn_def quiescent_def pendingEnds_def split: if_splits)
qed (use assms in \<open>simp_all\<close>)


lemma silent_step: "silent s \<Longrightarrow> silent (step fmt e s)"
proof (cases e)
  case StartCall
  assume "silent s"
  with StartCall show ?thesis by (cases "selectedOrder s") (simp_all add: nf silent_def)
next
  case (CustomerResponse ty)
  assume "silent s"
  with CustomerResponse show ?thesis
    by (cases ty; cases "selectedOrder s") (simp_all add: nf silent_def)
next
  case (RescheduleSelection slot)
  assume "silent s"
  with RescheduleSelection show ?thesis by (cases "selectedOrder s") (simp_all add: nf silent_def)
next
  case EscalateToSupport
  assume "silent s"
  with EscalateToSupport show ?thesis by (cases "selectedOrder s") (simp_all add: nf silent_def)
next
  case ToggleMute
  assume "silent s"
  with ToggleMute show ?thesis by (simp add: nf silent_def)
next
  case ResetCall
  assume "silent s"
  with ResetCall show ?thesis by (simp add: nf silent_def)
next
  case (SelectOrder i)
  assume "silent s"
  with SelectOrder show ?thesis by (simp add: nf silent_def)
next
  case TimerFires
  assume "silent s"
  with TimerFires show ?thesis
    by (simp add: nf silent_def split: list.splits timer_action.splits)
next
  case UtteranceEnds
  assume "silent s"
  with UtteranceEnds show ?thesis by (auto simp: nf silent_def split: list.splits)
next
  case (Elapse d)
  assume "silent s"
  with Elapse show ?thesis by (simp add: nf silent_def)
qed

lemma reachable_silent: "reachable fmt os b s \<Longrightarrow> silent s"
proof (induction rule: reachable.induct)
  case reachable_initial
  show ?case by (simp add: silent_def initial_def)
next
  case (reachable_step s e)
  then show ?case by (simp add: silent_step)
qed

lemma env_step_frame:
  assumes "isEnvironment e"
  shows "selectedOrderId (step fmt e s) = selectedOrderId s"
    and "rescheduleSlot (step fmt e s) = rescheduleSlot s"
    and "supported (step fmt e s) = supported s"
    and "clock s \<le> clock (step fmt e s)"
    and "suffix (timerQueue (step fmt e s)) (timerQueue s)"
  using assms
  by (cases e; simp add: nf suffix_def split: list.splits timer_action.splits)+

lemma env_run_invariants:
  assumes "list_all isEnvironment evs"
  shows "transcriptAhead (run fmt evs s) = transcriptAhead s"
    and "ordersAhead (run fmt evs s) = ordersAhead s"
    and "outcomeAhead (run fmt evs s) = outcomeAhead s"
    and "selectedOrderId (run fmt evs s) = selectedOrderId s"
    and "rescheduleSlot (run fmt evs s) = rescheduleSlot s"
    and "supported (run fmt evs s) = supported s"
    and "clock s \<le> clock (run fmt evs s)"
    and "suffix (timerQueue (run fmt evs s)) (timerQueue s)"
  using assms
proof (induction evs arbitrary: s)
  case Nil
  {
    case 1 show ?case by simp
  next
    case 2 show ?case by simp
  next
    case 3 show ?case by simp
  next
    case 4 show ?case by simp
  next
    case 5 show ?case by simp
  next
    case 6 show ?case by simp
  next
    case 7 show ?case by simp
  next
    case 8 show ?case by simp
  }
next
  case (Cons e evs)
  {
    case 1 then show ?case by (simp add: Cons.IH(1) transcriptAhead_step)
  next
    case 2 then show ?case by (simp add: Cons.IH(2) ordersAhead_step)
  next
    case 3 then show ?case by (simp add: Cons.IH(3) outcomeAhead_step)
  next
    case 4 then show ?case by (simp add: Cons.IH(4) env_step_frame(1))
  next
    case 5 then show ?case by (simp add: Cons.IH(5) env_step_frame(2))
  next
    case 6 then show ?case by (simp add: Cons.IH(6) env_step_frame(3))
  next
    case 7 then show ?case
      using Cons.IH(7) [of "step fmt e s"] env_step_frame(4) [of e s fmt] by simp
  next
    case 8 then show ?case
      using Cons.IH(8) [of "step fmt e s"] env_step_frame(5) [of e fmt s]
      by (auto intro: suffix_order.trans)
  }
qed

lemma endsIn_run:
  assumes "list_all isEnvironment evs" and "endsIn X s"
  shows "endsIn X (run fmt evs s)"
  using assms by (induction evs arbitrary: s) (simp_all add: endsIn_step)

lemma transcriptAhead_prefix:
  "prefix (map entryContent (conversation s)) (transcriptAhead s)"
  by (simp add: transcriptAhead_def)

lemma transcriptAhead_quiescent:
  "quiescent s \<Longrightarrow> transcriptAhead s = map entryContent (conversation s)"
  by (simp add: transcriptAhead_def quiescent_def)

lemma endsIn_quiescent: "endsIn X s \<Longrightarrow> quiescent s \<Longrightarrow> callState s = X"
  by (simp add: endsIn_def)

section \<open>Starting a call\<close>

lemma insertTimer_behind:
  "list_all (\<lambda>t. due t \<le> due x) q \<Longrightarrow> insertTimer x q = q @ [x]"
  by (induction q) simp_all

lemma sublist_inside: "sublist xs zs \<Longrightarrow> sublist xs (ps @ zs @ ss)"
proof -
  assume "sublist xs zs"
  then obtain p q where "zs = p @ xs @ q" by (auto simp: sublist_def)
  then have "ps @ zs @ ss = (ps @ p) @ xs @ (q @ ss)" by simp
  then show ?thesis unfolding sublist_def by blast
qed

lemma sublist_join: "x \<in> set xs \<Longrightarrow> sublist x (join sep xs)"
proof (induction sep xs rule: join.induct)
  case (1 sep)
  then show ?case by simp
next
  case (2 sep y)
  then show ?case by simp
next
  case (3 sep y z zs)
  show ?case
  proof (cases "x = y")
    case True
    then show ?thesis by simp
  next
    case False
    then have "sublist x (join sep (z # zs))" using 3 by simp
    then have "sublist x ((y @ sep) @ join sep (z # zs) @ [])" by (rule sublist_inside)
    then show ?thesis by simp
  qed
qed

lemma introLine_mentions:
  "sublist (order_id ord) (introLine fmt ord)" "sublist (fmt (total ord)) (introLine fmt ord)"
proof -
  have "introLine fmt ord =
        (''Hello '' @ customerName ord @
         '', this is the Flipkart order validation desk. I'm calling to confirm your order '') @
        order_id ord @ ('' for '' @ fmt (total ord) @ ''.'')"
    by (simp add: introLine_def)
  then show "sublist (order_id ord) (introLine fmt ord)"
    unfolding sublist_def by blast
  have "introLine fmt ord =
        (''Hello '' @ customerName ord @
         '', this is the Flipkart order validation desk. I'm calling to confirm your order '' @
         order_id ord @ '' for '') @ fmt (total ord) @ ''.''"
    by (simp add: introLine_def)
  then show "sublist (fmt (total ord)) (introLine fmt ord)"
    unfolding sublist_def by blast
qed

lemma itemsLine_mentions:
  assumes "item \<in> set (items ord)"
  shows "sublist (numberToString (quantity item) @ '' '' @ item_name item) (itemsLine ord)"
proof -
  have "sublist (numberToString (quantity item) @ '' '' @ item_name item) (itemText item)"
    unfolding itemText_def
    using sublist_append_rightI
      [of "numberToString (quantity item) @ '' '' @ item_name item"
          "if quantity item > 1 then ''s'' else ''''"]
    by simp
  moreover have "sublist (itemText item) (join '', '' (map itemText (items ord)))"
    using assms by (intro sublist_join) simp
  ultimately have "sublist (numberToString (quantity item) @ '' '' @ item_name item)
      (join '', '' (map itemText (items ord)))"
    by (rule sublist_order.order.trans)
  then have "sublist (numberToString (quantity item) @ '' '' @ item_name item)
      (''It includes '' @ join '', '' (map itemText (items ord)) @
       ('' with '' @ toLowerCase (paymentMethod ord) @
        ''. Is everything correct so we can schedule delivery '' @ deliverySlot ord @ ''?''))"
    by (rule sublist_inside)
  then show ?thesis by (simp add: itemsLine_def)
qed

lemma itemsLine_asks: "sublist ''Is everything correct'' (itemsLine ord)"
proof -
  have "itemsLine ord =
        (''It includes '' @ join '', '' (map itemText (items ord)) @ '' with '' @
         toLowerCase (paymentMethod ord) @ ''. '') @
        ''Is everything correct'' @
        ('' so we can schedule delivery '' @ deliverySlot ord @ ''?'')"
    by (simp add: itemsLine_def)
  then show ?thesis unfolding sublist_def by blast
qed

lemma dialingLine_mentions: "sublist (phoneNumber ord) (dialingLine ord)"
  unfolding dialingLine_def by (rule sublist_appendI)

lemma startCall_eq:
  assumes "selectedOrder s = Some ord" and "tracked s"
  shows "startCall fmt s =
         s\<lparr>conversation := [\<lparr>speaker = System, message = dialingLine ord, timestamp = clock s,
                               awaitingResponse = None\<rparr>],
           callState := Dialing, callOutcome := None, rescheduleSlot := [],
           timeoutsRef := [nextTimeoutId s, nextTimeoutId s + 1],
           nextTimeoutId := nextTimeoutId s + 2,
           timerQueue :=
             [\<lparr>timer_id = nextTimeoutId s, due = clock s + 1200,
               action = AgentLine (introLine fmt ord)
                          \<lparr>opt_awaitingResponse = Some False, opt_markResolved = None\<rparr>\<rparr>,
              \<lparr>timer_id = nextTimeoutId s + 1, due = clock s + 3400,
               action = AgentLine (itemsLine ord)
                          \<lparr>opt_awaitingResponse = Some True, opt_markResolved = None\<rparr>\<rparr>],
           utterances := (if supported s then map (\<lambda>u. u\<lparr>utt_cancelled := True\<rparr>) (utterances s)
                          else utterances s)\<rparr>"
proof -
  have "filter (\<lambda>t. timer_id t \<notin> set (timeoutsRef s)) (timerQueue s) = []"
    using assms(2) by (simp add: tracked_def list_all_iff filter_empty_conv)
  then show ?thesis
    using assms(1) by (simp add: startCall_def resetCall_eq addMessage_def scheduleAgentLine_def
        setTimeout_def Let_def)
qed

text \<open>
  C4. Let an order \<open>ord\<close> be selected in a reachable state. \<open>startCall\<close> leaves the
  transcript with the system line that announces the dial, in state \<open>dialing\<close>. Under
  every later sequence of timer, utterance and time events the transcript is a prefix of
  three lines: that system line, the agent line with the id and the formatted total of
  \<open>ord\<close> and \<open>awaitingResponse\<close> false, and the agent line that lists the items of
  \<open>ord\<close>, asks for confirmation and has \<open>awaitingResponse\<close> true. Once nothing is
  pending any more, the transcript is exactly these three lines and the state is
  \<open>awaiting_response\<close>.
\<close>

theorem startCall_script:
  assumes "reachable fmt initialOrders isBrowser s" and "selectedOrder s = Some ord"
    and "list_all isEnvironment evs"
  shows "map entryContent (conversation (startCall fmt s)) = [(System, dialingLine ord, None)]
       \<and> callState (startCall fmt s) = Dialing
       \<and> prefix (map entryContent (conversation (run fmt evs (startCall fmt s))))
           (introScript fmt ord)
       \<and> (quiescent (run fmt evs (startCall fmt s)) \<longrightarrow>
            map entryContent (conversation (run fmt evs (startCall fmt s))) = introScript fmt ord
            \<and> callState (run fmt evs (startCall fmt s)) = AwaitingResponse)
       \<and> sublist (phoneNumber ord) (dialingLine ord)
       \<and> sublist (order_id ord) (introLine fmt ord)
       \<and> sublist (fmt (total ord)) (introLine fmt ord)
       \<and> (\<forall>item \<in> set (items ord).
            sublist (numberToString (quantity item) @ '' '' @ item_name item) (itemsLine ord))
       \<and> sublist ''Is everything correct'' (itemsLine ord)"
proof -
  let ?s0 = "startCall fmt s" and ?t = "run fmt evs (startCall fmt s)"
  have tr: "tracked s" and si: "silent s"
    using assms(1) by (rule reachable_tracked, rule reachable_silent)
  note eq = startCall_eq [OF assms(2) tr, of fmt]
  have first: "map entryContent (conversation ?s0) = [(System, dialingLine ord, None)]"
    "callState ?s0 = Dialing"
    by (simp_all add: eq entryContent_def)
  have ahead0: "transcriptAhead ?s0 = introScript fmt ord"
    by (simp add: eq transcriptAhead_def entryContent_def introScript_def)
  have ends0: "endsIn AwaitingResponse ?s0"
    using si by (simp add: eq endsIn_def quiescent_def pendingEnds_def endState_def silent_def)
  have ahead: "transcriptAhead ?t = introScript fmt ord"
    using env_run_invariants(1) [OF assms(3), of fmt ?s0] ahead0 by simp
  have pre: "prefix (map entryContent (conversation ?t)) (introScript fmt ord)"
    using transcriptAhead_prefix [of ?t] ahead by simp
  have fin: "map entryContent (conversation ?t) = introScript fmt ord
             \<and> callState ?t = AwaitingResponse" if q: "quiescent ?t"
    using transcriptAhead_quiescent [OF q] ahead
      endsIn_quiescent [OF endsIn_run [OF assms(3) ends0] q] by simp
  show ?thesis
    using first pre fin dialingLine_mentions introLine_mentions itemsLine_mentions itemsLine_asks
    by blast
qed

theorem startCall_script_witness:
  "reachable sampleFormat [sampleOrder] True (initial [sampleOrder] True)
   \<and> selectedOrder (initial [sampleOrder] True) = Some sampleOrder
   \<and> list_all isEnvironment [TimerFires, UtteranceEnds, TimerFires, UtteranceEnds]
   \<and> quiescent (run sampleFormat [TimerFires, UtteranceEnds, TimerFires, UtteranceEnds]
        (startCall sampleFormat (initial [sampleOrder] True)))
   \<and> map entryContent (conversation
        (run sampleFormat [TimerFires, UtteranceEnds, TimerFires, UtteranceEnds]
          (startCall sampleFormat (initial [sampleOrder] True)))) =
       introScript sampleFormat sampleOrder
   \<and> callState (run sampleFormat [TimerFires, UtteranceEnds, TimerFires, UtteranceEnds]
        (startCall sampleFormat (initial [sampleOrder] True))) = AwaitingResponse
   \<and> sublist ''2 Phone Case'' (itemsLine sampleOrder)"
proof -
  have r: "reachable sampleFormat [sampleOrder] True (initial [sampleOrder] True)"
    by (rule reachable_initial)
  have o: "selectedOrder (initial [sampleOrder] True) = Some sampleOrder"
    by (simp add: selectedOrder_def initial_def sampleOrder_def)
  have l: "list_all isEnvironment [TimerFires, UtteranceEnds, TimerFires, UtteranceEnds]"
    by simp
  have q: "quiescent (run sampleFormat [TimerFires, UtteranceEnds, TimerFires, UtteranceEnds]
        (startCall sampleFormat (initial [sampleOrder] True)))"
    by (simp add: quiescent_def ops sampleOrder_def)
  have i: "\<lparr>item_name = ''Phone Case'', quantity = 2\<rparr> \<in> set (items sampleOrder)"
    by (simp add: sampleOrder_def)
  have n: "numberToString 2 = ''2''"
    by code_simp
  show ?thesis
    using r o l q i n startCall_script [OF r o l]
    by (auto simp del: run.simps)
qed

section \<open>Rescheduling\<close>

lemma fold_ordersAfter_lines:
  "list_all (\<lambda>t. isAgentLine (action t)) q \<Longrightarrow> fold (\<lambda>t. ordersAfter (action t)) q os = os"
  by (induction q) (auto elim: isAgentLine.elims)

lemma fold_outcomeAfter_lines:
  "list_all (\<lambda>t. isAgentLine (action t)) q \<Longrightarrow> fold (\<lambda>t. outcomeAfter (action t)) q out = out"
  by (induction q) (auto elim: isAgentLine.elims)

lemma linesDueBy_lines: "linesDueBy d q \<Longrightarrow> list_all (\<lambda>t. isAgentLine (action t)) q"
  by (simp add: linesDueBy_def list_all_iff)

lemma linesDueBy_mono: "linesDueBy d q \<Longrightarrow> d \<le> d' \<Longrightarrow> list_all (\<lambda>t. due t \<le> d') q"
  by (auto simp: linesDueBy_def list_all_iff)

lemma linesDueBy_suffix: "suffix q' q \<Longrightarrow> linesDueBy d q \<Longrightarrow> linesDueBy d q'"
  by (auto simp: linesDueBy_def list_all_iff suffix_def)

lemma silent_run: "silent s \<Longrightarrow> silent (run fmt evs s)"
  by (induction evs arbitrary: s) (simp_all add: silent_step)

lemma handleRescheduleSelection_queue:
  assumes "selectedOrder s = Some ord" and "linesDueBy (clock s + 500) (timerQueue s)"
  shows "timerQueue (handleRescheduleSelection slot s) =
         timerQueue s @
         [\<lparr>timer_id = nextTimeoutId s, due = clock s + 500,
           action = AgentLine (rescheduledLine slot)
                      \<lparr>opt_awaitingResponse = Some False, opt_markResolved = None\<rparr>\<rparr>,
          \<lparr>timer_id = nextTimeoutId s + 1, due = clock s + 2000,
           action = AgentLine closingLine
                      \<lparr>opt_awaitingResponse = Some False, opt_markResolved = Some True\<rparr>\<rparr>,
          \<lparr>timer_id = nextTimeoutId s + 2, due = clock s + 2300,
           action = CompleteCall OutcomeRescheduled (MarkConfirmedSlot slot) ord\<rparr>]"
proof -
  let ?A = "\<lparr>timer_id = nextTimeoutId s, due = clock s + 500,
           action = AgentLine (rescheduledLine slot)
                      \<lparr>opt_awaitingResponse = Some False, opt_markResolved = None\<rparr>\<rparr>"
  let ?B = "\<lparr>timer_id = nextTimeoutId s + 1, due = clock s + 2000,
           action = AgentLine closingLine
                      \<lparr>opt_awaitingResponse = Some False, opt_markResolved = Some True\<rparr>\<rparr>"
  let ?C = "\<lparr>timer_id = nextTimeoutId s + 2, due = clock s + 2300,
           action = CompleteCall OutcomeRescheduled (MarkConfirmedSlot slot) ord\<rparr>"
  let ?q = "timerQueue s"
  have a: "insertTimer ?A ?q = ?q @ [?A]"
    using linesDueBy_mono [OF assms(2), of "clock s + 500"] by (intro insertTimer_behind) simp
  have b: "insertTimer ?B (?q @ [?A]) = ?q @ [?A, ?B]"
    using linesDueBy_mono [OF assms(2), of "clock s + 2000"]
      insertTimer_behind [of ?B "?q @ [?A]"] by simp
  have c: "insertTimer ?C (?q @ [?A, ?B]) = ?q @ [?A, ?B, ?C]"
    using linesDueBy_mono [OF assms(2), of "clock s + 2300"]
      insertTimer_behind [of ?C "?q @ [?A, ?B]"] by simp
  have "timerQueue (handleRescheduleSelection slot s) = insertTimer ?C (insertTimer ?B (insertTimer ?A ?q))"
    using assms(1)
    by (simp add: handleRescheduleSelection_def addMessage_def scheduleAgentLine_def
        setTimeout_def Let_def)
  then show ?thesis by (simp only: a b c)
qed

lemma handleRescheduleSelection_frame:
  assumes "selectedOrder s = Some ord"
  shows "conversation (handleRescheduleSelection slot s) =
           conversation s @ [\<lparr>speaker = Customer, message = slotChoiceLine slot,
                               timestamp = clock s, awaitingResponse = None\<rparr>]"
    and "rescheduleSlot (handleRescheduleSelection slot s) = slot"
    and "callState (handleRescheduleSelection slot s) = callState s"
    and "callOutcome (handleRescheduleSelection slot s) = callOutcome s"
    and "orders (handleRescheduleSelection slot s) = orders s"
    and "selectedOrderId (handleRescheduleSelection slot s) = selectedOrderId s"
    and "utterances (handleRescheduleSelection slot s) = utterances s"
    and "supported (handleRescheduleSelection slot s) = supported s"
    and "set (timerQueue (handleRescheduleSelection slot s)) =
           set (timerQueue s) \<union>
           {\<lparr>timer_id = nextTimeoutId s, due = clock s + 500,
             action = AgentLine (rescheduledLine slot)
                        \<lparr>opt_awaitingResponse = Some False, opt_markResolved = None\<rparr>\<rparr>,
            \<lparr>timer_id = nextTimeoutId s + 1, due = clock s + 2000,
             action = AgentLine closingLine
                        \<lparr>opt_awaitingResponse = Some False, opt_markResolved = Some True\<rparr>\<rparr>,
            \<lparr>timer_id = nextTimeoutId s + 2, due = clock s + 2300,
             action = CompleteCall OutcomeRescheduled (MarkConfirmedSlot slot) ord\<rparr>}"
  using assms
  by (auto simp: handleRescheduleSelection_def addMessage_def scheduleAgentLine_def
      setTimeout_def Let_def)

lemma handleRescheduleSelection_ahead:
  assumes "selectedOrder s = Some ord" and "linesDueBy (clock s + 500) (timerQueue s)"
    and "silent s"
  shows "ordersAhead (handleRescheduleSelection slot s) =
           map (\<lambda>x. if order_id x = order_id ord
                     then applyUpdater (MarkConfirmedSlot slot) x else x) (orders s)"
    and "outcomeAhead (handleRescheduleSelection slot s) = Some OutcomeRescheduled"
    and "endsIn Resolved (handleRescheduleSelection slot s)"
proof -
  note q = handleRescheduleSelection_queue [OF assms(1,2), of slot]
  note f = handleRescheduleSelection_frame [OF assms(1), of slot]
  note l = linesDueBy_lines [OF assms(2)]
  show "ordersAhead (handleRescheduleSelection slot s) =
           map (\<lambda>x. if order_id x = order_id ord
                     then applyUpdater (MarkConfirmedSlot slot) x else x) (orders s)"
    by (simp add: ordersAhead_def q f fold_ordersAfter_lines [OF l])
  show "outcomeAhead (handleRescheduleSelection slot s) = Some OutcomeRescheduled"
    by (simp add: outcomeAhead_def q f fold_outcomeAfter_lines [OF l])
  show "endsIn Resolved (handleRescheduleSelection slot s)"
    using assms(3)
    by (simp add: endsIn_def quiescent_def pendingEnds_def q f endState_def silent_def)
qed

lemma ahead_quiescent:
  assumes "quiescent s"
  shows "ordersAhead s = orders s" and "outcomeAhead s = callOutcome s"
  using assms by (simp_all add: ordersAhead_def outcomeAhead_def quiescent_def)

lemma selectedOrder_after_update:
  assumes "selectedOrder s = Some ord" and "selectedOrderId t = selectedOrderId s"
    and "orders t = map (\<lambda>x. if order_id x = order_id ord then applyUpdater upd x else x) (orders s)"
  shows "selectedOrder t = Some (applyUpdater upd ord)"
proof -
  obtain i where i: "selectedOrderId s = Some i" and f: "find (\<lambda>x. order_id x = i) (orders s) = Some ord"
    using assms(1) by (auto simp: selectedOrder_def split: option.splits)
  have "find (\<lambda>x. order_id x = i) (orders t) =
        Some (if order_id ord = order_id ord then applyUpdater upd ord else ord)"
    unfolding assms(3) using f by (rule find_map_updater)
  then show ?thesis using i assms(2) by (simp add: selectedOrder_def)
qed

lemma slot_selection_completes:
  assumes sel: "selectedOrder s = Some ord" and lines: "linesDueBy (clock s + 500) (timerQueue s)"
    and sil: "silent s" and env: "list_all isEnvironment evs"
    and q: "quiescent (run fmt evs (handleRescheduleSelection slot s))"
  shows "selectedOrder (run fmt evs (handleRescheduleSelection slot s)) =
           Some (ord\<lparr>status := StatusConfirmed, deliverySlot := slot\<rparr>)"
    and "callOutcome (run fmt evs (handleRescheduleSelection slot s)) = Some OutcomeRescheduled"
    and "callState (run fmt evs (handleRescheduleSelection slot s)) = Resolved"
    and "rescheduleSlot (run fmt evs (handleRescheduleSelection slot s)) = slot"
proof -
  let ?s' = "handleRescheduleSelection slot s" and ?t = "run fmt evs (handleRescheduleSelection slot s)"
  note a = handleRescheduleSelection_ahead [OF sel lines sil, of slot]
  note f = handleRescheduleSelection_frame [OF sel, of slot]
  note inv = env_run_invariants [OF env, where fmt = fmt and s = ?s']
  have o: "orders ?t = map (\<lambda>x. if order_id x = order_id ord
                     then applyUpdater (MarkConfirmedSlot slot) x else x) (orders s)"
    using ahead_quiescent(1) [OF q] inv(2) a(1) by simp
  have i: "selectedOrderId ?t = selectedOrderId s"
    using inv(4) f(6) by simp
  show "selectedOrder ?t = Some (ord\<lparr>status := StatusConfirmed, deliverySlot := slot\<rparr>)"
    using selectedOrder_after_update [OF sel i o] by simp
  show "callOutcome ?t = Some OutcomeRescheduled"
    using ahead_quiescent(2) [OF q] inv(3) a(2) by simp
  show "callState ?t = Resolved"
    using endsIn_quiescent [OF endsIn_run [OF env a(3)] q] .
  show "rescheduleSlot ?t = slot"
    using inv(5) f(2) by simp
qed

lemma linesDueBy_later: "linesDueBy d q \<Longrightarrow> d \<le> d' \<Longrightarrow> linesDueBy d' q"
  by (auto simp: linesDueBy_def list_all_iff)

lemma reschedule_response_eq:
  assumes "selectedOrder s = Some ord" and "timerQueue s = []"
  shows "handleCustomerResponse fmt Reschedule s =
         s\<lparr>conversation := conversation s @
              [\<lparr>speaker = Customer, message = customerLines Reschedule, timestamp = clock s,
                awaitingResponse = None\<rparr>],
           callState := AwaitingResponse, callOutcome := Some OutcomeRescheduled,
           rescheduleSlot := [],
           timerQueue := [\<lparr>timer_id = nextTimeoutId s, due = clock s + 500,
                           action = AgentLine slotOfferLine
                             \<lparr>opt_awaitingResponse = Some True, opt_markResolved = None\<rparr>\<rparr>],
           nextTimeoutId := nextTimeoutId s + 1,
           timeoutsRef := timeoutsRef s @ [nextTimeoutId s]\<rparr>"
  using assms
  by (simp add: handleCustomerResponse_def addMessage_def scheduleAgentLine_def setTimeout_def)

lemma sorted_insertTimer:
  "sorted_wrt (\<lambda>a b. due a \<le> due b) q \<Longrightarrow> sorted_wrt (\<lambda>a b. due a \<le> due b) (insertTimer x q)"
  by (induction q) auto

lemma list_all_insertTimer: "list_all P (insertTimer x q) = (P x \<and> list_all P q)"
  by (auto simp: list_all_iff)

lemma completionInTime_later:
  "completionInTime sel now d a \<Longrightarrow> now \<le> now' \<Longrightarrow> completionInTime sel now' d a"
  by (induction sel now d a rule: completionInTime.induct) auto

lemma scheduled_step:
  assumes "tracked s" and "queueSorted s" and "completionsInTime s"
  shows "queueSorted (step fmt e s) \<and> completionsInTime (step fmt e s)"
proof (cases e)
  case StartCall
  show ?thesis
  proof (cases "selectedOrder s")
    case None
    then show ?thesis using StartCall assms by (simp add: startCall_def)
  next
    case (Some ord)
    then show ?thesis using StartCall
      by (simp add: startCall_eq [OF Some assms(1)] queueSorted_def completionsInTime_def)
  qed
next
  case (CustomerResponse ty)
  show ?thesis
  proof (cases "selectedOrder s")
    case None
    then show ?thesis using CustomerResponse assms by (simp add: handleCustomerResponse_def)
  next
    case (Some ord)
    then show ?thesis
      using CustomerResponse assms(2,3) selectedOrder_id [OF Some]
      by (cases ty)
         (simp_all add: nf queueSorted_def completionsInTime_def sorted_insertTimer
            list_all_insertTimer)
  qed
next
  case (RescheduleSelection slot)
  show ?thesis
  proof (cases "selectedOrder s")
    case None
    then show ?thesis using RescheduleSelection assms by (simp add: handleRescheduleSelection_def)
  next
    case (Some ord)
    then show ?thesis
      using RescheduleSelection assms(2,3) selectedOrder_id [OF Some]
      by (simp add: nf queueSorted_def completionsInTime_def sorted_insertTimer
            list_all_insertTimer)
  qed
next
  case EscalateToSupport
  then show ?thesis using assms(2,3)
    by (cases "selectedOrder s") (simp_all add: nf queueSorted_def completionsInTime_def)
next
  case ToggleMute
  then show ?thesis using assms(2,3)
    by (simp add: toggleMute_eq queueSorted_def completionsInTime_def)
next
  case ResetCall
  then show ?thesis using tracked_filter [OF assms(1)]
    by (simp add: resetCall_eq queueSorted_def completionsInTime_def)
next
  case (SelectOrder i)
  then show ?thesis using tracked_filter [OF assms(1)] assms(2,3)
    by (simp add: selectOrder_def resetCall_eq queueSorted_def completionsInTime_def)
next
  case TimerFires
  show ?thesis
  proof (cases "timerQueue s")
    case Nil
    then show ?thesis using TimerFires assms by (simp add: timerFires_def queueSorted_def completionsInTime_def)
  next
    case (Cons x xs)
    have q: "timerQueue (timerFires s) = xs"
      and c: "clock (timerFires s) = max (clock s) (due x)"
      and i: "selectedOrderId (timerFires s) = selectedOrderId s"
      using Cons by (cases "action x"; simp add: nf)+
    have "list_all (\<lambda>t. completionInTime (selectedOrderId s) (clock s) (due t) (action t)) xs"
      using assms(3) Cons by (simp add: completionsInTime_def)
    then have "list_all (\<lambda>t. completionInTime (selectedOrderId s) (max (clock s) (due x)) (due t) (action t)) xs"
      by (auto simp: list_all_iff intro: completionInTime_later)
    then show ?thesis
      using TimerFires assms(2) Cons
      by (simp add: queueSorted_def completionsInTime_def q c i)
  qed
next
  case UtteranceEnds
  then show ?thesis using assms(2,3)
    by (cases "utterances s") (simp_all add: nf queueSorted_def completionsInTime_def)
next
  case (Elapse d)
  have "list_all (\<lambda>t. completionInTime (selectedOrderId s) (clock s + d) (due t) (action t))
          (timerQueue s)"
    using assms(3) by (auto simp: completionsInTime_def list_all_iff intro: completionInTime_later)
  then show ?thesis using Elapse assms(2)
    by (simp add: elapse_def queueSorted_def completionsInTime_def)
qed

lemma reachable_scheduled:
  "reachable fmt os b s \<Longrightarrow> queueSorted s \<and> completionsInTime s"
proof (induction rule: reachable.induct)
  case reachable_initial
  show ?case by (simp add: queueSorted_def completionsInTime_def initial_def)
next
  case (reachable_step s e)
  then show ?case using scheduled_step [OF reachable_tracked [OF reachable_step.hyps]] by simp
qed

lemma orderAfter_order_id [simp]: "order_id (orderAfter a ord) = order_id ord"
  by (cases a) simp_all

lemma fold_orderAfter_order_id [simp]:
  "order_id (fold (\<lambda>t. orderAfter (action t)) q ord) = order_id ord"
  by (induction q arbitrary: ord) simp_all

lemma ordersAfter_map: "ordersAfter a os = map (orderAfter a) os"
  by (cases a; induction os; simp)

lemma find_map_orderAfter:
  "find (\<lambda>ord. order_id ord = i) (map (orderAfter a) os) =
   map_option (orderAfter a) (find (\<lambda>ord. order_id ord = i) os)"
  by (induction os) simp_all

lemma find_fold_ordersAfter:
  "find (\<lambda>ord. order_id ord = i) (fold (\<lambda>t. ordersAfter (action t)) q os) =
   map_option (fold (\<lambda>t. orderAfter (action t)) q) (find (\<lambda>ord. order_id ord = i) os)"
proof (induction q arbitrary: os)
  case Nil
  show ?case by (simp add: option.map_ident)
next
  case (Cons t q)
  let ?P = "\<lambda>ord. order_id ord = i"
  have "find ?P (fold (\<lambda>t. ordersAfter (action t)) (t # q) os) =
        find ?P (fold (\<lambda>t. ordersAfter (action t)) q (ordersAfter (action t) os))"
    by simp
  also have "\<dots> = map_option (fold (\<lambda>t. orderAfter (action t)) q)
                      (find ?P (ordersAfter (action t) os))"
    by (rule Cons.IH)
  also have "\<dots> = map_option (fold (\<lambda>t. orderAfter (action t)) q)
                      (map_option (orderAfter (action t)) (find ?P os))"
    by (simp only: ordersAfter_map find_map_orderAfter)
  also have "\<dots> = map_option (fold (\<lambda>t. orderAfter (action t)) (t # q)) (find ?P os)"
    by (cases "find ?P os") simp_all
  finally show ?case .
qed

lemma applyUpdater_touches:
  "applyUpdater upd ord =
   ord\<lparr>status := status (applyUpdater upd ord), deliverySlot := deliverySlot (applyUpdater upd ord)\<rparr>"
  by (cases upd) simp_all

lemma orderAfter_touches:
  "orderAfter a ord =
   ord\<lparr>status := status (orderAfter a ord), deliverySlot := deliverySlot (orderAfter a ord)\<rparr>"
proof (cases a)
  case (AgentLine msg opts)
  then show ?thesis by simp
next
  case (CompleteCall outcome upd sel)
  then show ?thesis using applyUpdater_touches [of upd ord] by simp
qed

lemma fold_orderAfter_touches:
  "\<exists>x y. fold (\<lambda>t. orderAfter (action t)) q ord = ord\<lparr>status := x, deliverySlot := y\<rparr>"
proof (induction q arbitrary: ord)
  case Nil
  have "ord = ord\<lparr>status := status ord, deliverySlot := deliverySlot ord\<rparr>" by simp
  then show ?case by (metis fold_simps(1))
next
  case (Cons t q)
  obtain x y where
    "fold (\<lambda>t. orderAfter (action t)) q (orderAfter (action t) ord) =
     (orderAfter (action t) ord)\<lparr>status := x, deliverySlot := y\<rparr>"
    using Cons.IH by blast
  moreover have "(orderAfter (action t) ord)\<lparr>status := x, deliverySlot := y\<rparr> =
                 ord\<lparr>status := x, deliverySlot := y\<rparr>"
    by (subst orderAfter_touches) simp
  ultimately show ?case by auto
qed

text \<open>What a timer that fires after the reschedule completion can still do.\<close>

lemma late_timer_keeps_slot:
  assumes "completionInTime (Some (order_id ord)) c (due t) (action t)" and "c + 2300 < due t"
    and "status ord = StatusConfirmed" and "deliverySlot ord = slot"
  shows "status (orderAfter (action t) ord) = StatusConfirmed
       \<and> deliverySlot (orderAfter (action t) ord) = slot"
proof (cases "action t")
  case (AgentLine msg opts)
  then show ?thesis using assms by simp
next
  case (CompleteCall outcome upd sel)
  then show ?thesis using assms by (cases upd) auto
qed

lemma late_timers_keep_slot:
  assumes "list_all (\<lambda>t. completionInTime (Some (order_id ord)) c (due t) (action t)) q"
    and "list_all (\<lambda>t. c + 2300 < due t) q"
    and "status ord = StatusConfirmed" and "deliverySlot ord = slot"
  shows "status (fold (\<lambda>t. orderAfter (action t)) q ord) = StatusConfirmed
       \<and> deliverySlot (fold (\<lambda>t. orderAfter (action t)) q ord) = slot"
  using assms
proof (induction q arbitrary: ord)
  case Nil
  then show ?case by simp
next
  case (Cons t q)
  have k: "status (orderAfter (action t) ord) = StatusConfirmed
           \<and> deliverySlot (orderAfter (action t) ord) = slot"
    using Cons.prems by (intro late_timer_keeps_slot [of ord c]) simp_all
  have "status (fold (\<lambda>t. orderAfter (action t)) q (orderAfter (action t) ord)) = StatusConfirmed
        \<and> deliverySlot (fold (\<lambda>t. orderAfter (action t)) q (orderAfter (action t) ord)) = slot"
    using Cons.prems k by (intro Cons.IH) simp_all
  then show ?case by simp
qed

lemma completion_settles:
  assumes "sorted_wrt (\<lambda>a b. due a \<le> due b) q"
    and "list_all (\<lambda>t. completionInTime (Some (order_id ord)) c (due t) (action t)) q"
    and "due x = c + 2300"
    and "action x = CompleteCall outcome (MarkConfirmedSlot slot) sel"
    and "order_id sel = order_id ord"
  shows "status (fold (\<lambda>t. orderAfter (action t)) (insertTimer x q) ord) = StatusConfirmed
       \<and> deliverySlot (fold (\<lambda>t. orderAfter (action t)) (insertTimer x q) ord) = slot"
  using assms
proof (induction q arbitrary: ord)
  case Nil
  then show ?case by simp
next
  case (Cons t q)
  show ?case
  proof (cases "due t \<le> due x")
    case True
    have "status (fold (\<lambda>t. orderAfter (action t)) (insertTimer x q) (orderAfter (action t) ord)) =
            StatusConfirmed
          \<and> deliverySlot (fold (\<lambda>t. orderAfter (action t)) (insertTimer x q)
              (orderAfter (action t) ord)) = slot"
      using Cons.prems by (intro Cons.IH) simp_all
    then show ?thesis using True by simp
  next
    case False
    let ?o = "applyUpdater (MarkConfirmedSlot slot) ord"
    have late: "list_all (\<lambda>u. c + 2300 < due u) (t # q)"
      using False Cons.prems(1,3) by (auto simp: list_all_iff)
    have "status (fold (\<lambda>t. orderAfter (action t)) (t # q) ?o) = StatusConfirmed
          \<and> deliverySlot (fold (\<lambda>t. orderAfter (action t)) (t # q) ?o) = slot"
      using Cons.prems(2) late by (intro late_timers_keep_slot [of _ c]) simp_all
    then show ?thesis using False Cons.prems(4,5) by simp
  qed
qed

lemma handleRescheduleSelection_inserts:
  assumes "selectedOrder s = Some ord"
  shows "timerQueue (handleRescheduleSelection slot s) =
         insertTimer
           \<lparr>timer_id = nextTimeoutId s + 2, due = clock s + 2300,
             action = CompleteCall OutcomeRescheduled (MarkConfirmedSlot slot) ord\<rparr>
           (insertTimer
              \<lparr>timer_id = nextTimeoutId s + 1, due = clock s + 2000,
                action = AgentLine closingLine
                           \<lparr>opt_awaitingResponse = Some False, opt_markResolved = Some True\<rparr>\<rparr>
              (insertTimer
                 \<lparr>timer_id = nextTimeoutId s, due = clock s + 500,
                   action = AgentLine (rescheduledLine slot)
                              \<lparr>opt_awaitingResponse = Some False, opt_markResolved = None\<rparr>\<rparr>
                 (timerQueue s)))"
  using assms
  by (simp add: handleRescheduleSelection_def addMessage_def scheduleAgentLine_def
      setTimeout_def Let_def)

lemma selectedOrder_fold:
  assumes "selectedOrder s = Some ord" and "selectedOrderId t = selectedOrderId s"
    and "orders t = fold (\<lambda>x. ordersAfter (action x)) q (orders s)"
  shows "selectedOrder t = Some (fold (\<lambda>x. orderAfter (action x)) q ord)"
proof -
  obtain i where i: "selectedOrderId s = Some i" and f: "find (\<lambda>x. order_id x = i) (orders s) = Some ord"
    using assms(1) by (auto simp: selectedOrder_def split: option.splits)
  show ?thesis
    using i f assms(2) by (simp add: selectedOrder_def assms(3) find_fold_ordersAfter)
qed

lemma slot_selection_sets_order:
  assumes r: "reachable fmt initialOrders isBrowser s" and sel: "selectedOrder s = Some ord"
    and env: "list_all isEnvironment evs"
    and q: "quiescent (run fmt evs (handleRescheduleSelection slot s))"
  shows "selectedOrder (run fmt evs (handleRescheduleSelection slot s)) =
           Some (ord\<lparr>status := StatusConfirmed, deliverySlot := slot\<rparr>)"
proof -
  let ?s' = "handleRescheduleSelection slot s" and ?t = "run fmt evs (handleRescheduleSelection slot s)"
  let ?A = "\<lparr>timer_id = nextTimeoutId s, due = clock s + 500,
             action = AgentLine (rescheduledLine slot)
                        \<lparr>opt_awaitingResponse = Some False, opt_markResolved = None\<rparr>\<rparr>"
  let ?B = "\<lparr>timer_id = nextTimeoutId s + 1, due = clock s + 2000,
             action = AgentLine closingLine
                        \<lparr>opt_awaitingResponse = Some False, opt_markResolved = Some True\<rparr>\<rparr>"
  let ?C = "\<lparr>timer_id = nextTimeoutId s + 2, due = clock s + 2300,
             action = CompleteCall OutcomeRescheduled (MarkConfirmedSlot slot) ord\<rparr>"
  let ?Q' = "insertTimer ?B (insertTimer ?A (timerQueue s))"
  note f = handleRescheduleSelection_frame [OF sel, of slot]
  note inv = env_run_invariants [OF env, where fmt = fmt and s = ?s']
  have sched: "queueSorted s" "completionsInTime s"
    using reachable_scheduled [OF r] by simp_all
  have id: "selectedOrderId s = Some (order_id ord)"
    using sel by (rule selectedOrder_id)
  have o: "orders ?t = fold (\<lambda>x. ordersAfter (action x)) (insertTimer ?C ?Q') (orders s)"
    using ahead_quiescent(1) [OF q] inv(2)
    by (simp add: ordersAhead_def handleRescheduleSelection_inserts [OF sel] f(5))
  have i: "selectedOrderId ?t = selectedOrderId s"
    using inv(4) f(6) by simp
  have res: "selectedOrder ?t = Some (fold (\<lambda>x. orderAfter (action x)) (insertTimer ?C ?Q') ord)"
    using sel i o by (rule selectedOrder_fold)
  have sorted: "sorted_wrt (\<lambda>a b. due a \<le> due b) ?Q'"
    using sched(1) by (simp add: queueSorted_def sorted_insertTimer)
  have intime: "list_all (\<lambda>t. completionInTime (Some (order_id ord)) (clock s) (due t) (action t)) ?Q'"
    using sched(2) id by (simp add: completionsInTime_def list_all_insertTimer)
  have settled: "status (fold (\<lambda>x. orderAfter (action x)) (insertTimer ?C ?Q') ord) = StatusConfirmed
      \<and> deliverySlot (fold (\<lambda>x. orderAfter (action x)) (insertTimer ?C ?Q') ord) = slot"
    using sorted intime by (rule completion_settles) simp_all
  obtain x y where xy: "fold (\<lambda>x. orderAfter (action x)) (insertTimer ?C ?Q') ord =
      ord\<lparr>status := x, deliverySlot := y\<rparr>"
    using fold_orderAfter_touches by blast
  have "x = StatusConfirmed" "y = slot"
    using settled unfolding xy by simp_all
  then show ?thesis using res xy by simp
qed

lemma env_step_selectedOrder:
  assumes "selectedOrder s = Some ord" and "isEnvironment e"
  shows "\<exists>x y. selectedOrder (step fmt e s) = Some (ord\<lparr>status := x, deliverySlot := y\<rparr>)"
proof -
  have same: "\<exists>x y. selectedOrder t = Some (ord\<lparr>status := x, deliverySlot := y\<rparr>)"
    if "orders t = orders s" "selectedOrderId t = selectedOrderId s" for t
  proof -
    have "selectedOrder t = Some (ord\<lparr>status := status ord, deliverySlot := deliverySlot ord\<rparr>)"
      using selectedOrder_cong [OF that] assms(1) by simp
    then show ?thesis by blast
  qed
  show ?thesis
  proof (cases e)
    case TimerFires
    show ?thesis
    proof (cases "timerQueue s")
      case Nil
      then show ?thesis using TimerFires same [of s] by (simp add: timerFires_def)
    next
      case (Cons t ts)
      show ?thesis
      proof (cases "action t")
        case (AgentLine msg opts)
        then show ?thesis using TimerFires Cons
          by (intro same) (simp_all add: nf)
      next
        case (CompleteCall outcome upd sel)
        let ?s0 = "s\<lparr>timerQueue := ts, clock := max (clock s) (due t)\<rparr>"
        have "selectedOrder ?s0 = Some ord"
          using selectedOrder_cong [of ?s0 s] assms(1) by simp
        then have "selectedOrder (completeCall (Some sel) outcome upd ?s0) =
                   Some (if order_id ord = order_id sel then applyUpdater upd ord else ord)"
          by (rule selectedOrder_completeCall)
        moreover have "step fmt e s = completeCall (Some sel) outcome upd ?s0"
          using TimerFires Cons CompleteCall by (simp add: timerFires_def runTimer_def)
        moreover have "ord = ord\<lparr>status := status ord, deliverySlot := deliverySlot ord\<rparr>"
          by simp
        ultimately show ?thesis
          using applyUpdater_touches [of upd ord] by (metis (full_types))
      qed
    qed
  next
    case UtteranceEnds
    then show ?thesis
      by (cases "utterances s") (auto intro!: same simp: nf)
  next
    case (Elapse d)
    then show ?thesis by (auto intro!: same simp: nf)
  qed (use assms(2) in \<open>simp_all\<close>)
qed

lemma env_run_selectedOrder:
  assumes "selectedOrder s = Some ord" and "list_all isEnvironment evs"
  shows "\<exists>x y. selectedOrder (run fmt evs s) = Some (ord\<lparr>status := x, deliverySlot := y\<rparr>)"
  using assms
proof (induction evs arbitrary: s ord)
  case Nil
  have "ord = ord\<lparr>status := status ord, deliverySlot := deliverySlot ord\<rparr>" by simp
  then show ?case using Nil by (metis run.simps(1))
next
  case (Cons e evs)
  obtain x y where 1: "selectedOrder (step fmt e s) = Some (ord\<lparr>status := x, deliverySlot := y\<rparr>)"
    using env_step_selectedOrder [of s ord e fmt] Cons.prems by auto
  obtain x' y' where "selectedOrder (run fmt evs (step fmt e s)) =
      Some (ord\<lparr>status := x, deliverySlot := y\<rparr>\<lparr>status := x', deliverySlot := y'\<rparr>)"
    using Cons.IH [OF 1] Cons.prems by auto
  then have "selectedOrder (run fmt (e # evs) s) = Some (ord\<lparr>status := x', deliverySlot := y'\<rparr>)"
    by simp
  then show ?case by blast
qed

lemma after_reschedule_response:
  assumes sel: "selectedOrder s = Some ord" and tq: "timerQueue s = []" and si: "silent s"
    and env: "list_all isEnvironment evs"
  shows "selectedOrder (run fmt evs (handleCustomerResponse fmt Reschedule s)) = Some ord"
    and "linesDueBy (clock (run fmt evs (handleCustomerResponse fmt Reschedule s)) + 500)
           (timerQueue (run fmt evs (handleCustomerResponse fmt Reschedule s)))"
    and "silent (run fmt evs (handleCustomerResponse fmt Reschedule s))"
proof -
  let ?s1 = "handleCustomerResponse fmt Reschedule s"
  let ?t = "run fmt evs ?s1"
  note eq = reschedule_response_eq [OF sel tq, of fmt]
  note inv = env_run_invariants [OF env, where fmt = fmt and s = ?s1]
  have l1: "linesDueBy (clock s + 500) (timerQueue ?s1)"
    by (simp add: eq linesDueBy_def)
  have lt: "linesDueBy (clock s + 500) (timerQueue ?t)"
    using inv(8) l1 by (rule linesDueBy_suffix)
  have "clock s \<le> clock ?t"
    using inv(7) by (simp add: eq)
  then have "clock s + 500 \<le> clock ?t + 500" by simp
  with lt show "linesDueBy (clock ?t + 500) (timerQueue ?t)"
    by (rule linesDueBy_later)
  have "ordersAhead ?t = orders s"
    using inv(2) by (simp add: eq ordersAhead_def)
  moreover have "ordersAhead ?t = orders ?t"
    unfolding ordersAhead_def by (rule fold_ordersAfter_lines [OF linesDueBy_lines [OF lt]])
  ultimately have o: "orders ?t = orders s" by simp
  have i: "selectedOrderId ?t = selectedOrderId s"
    using inv(4) by (simp add: eq)
  show "selectedOrder ?t = Some ord"
    using selectedOrder_cong [OF o i] sel by simp
  have "silent ?s1"
    using si by (simp add: eq silent_def)
  then show "silent ?t" by (rule silent_run)
qed

text \<open>
  C5, as stated, fails. In the first run the operator chooses confirm, then at once
  reschedule and a slot: the completion of the confirm branch (2500 ms) fires after the
  completion of the slot selection (2300 ms), and the outcome ends \<open>confirmed\<close>, not
  \<open>rescheduled\<close>. In the second run the operator unmutes before the introduction has
  run, chooses reschedule and a slot: the second introduction line fires last and the
  state ends \<open>awaiting_response\<close>, not \<open>resolved\<close>. Every step of both runs is offered by
  the presentation layer, and nothing is pending at the end.
\<close>

theorem reschedule_outcome_overtaken:
  "offeredRun sampleFormat
     [StartCall, TimerFires, TimerFires, CustomerResponse Confirm, CustomerResponse Reschedule,
      RescheduleSelection ''Tomorrow, 9AM - 12PM'', TimerFires, TimerFires, TimerFires,
      TimerFires, TimerFires, TimerFires, TimerFires]
     (initial [sampleOrder] False)
   \<and> quiescent overtakenReschedule
   \<and> callOutcome overtakenReschedule = Some OutcomeConfirmed
   \<and> callOutcome overtakenReschedule \<noteq> Some OutcomeRescheduled
   \<and> offeredRun sampleFormat
     [StartCall, ToggleMute, ToggleMute, CustomerResponse Reschedule,
      RescheduleSelection ''Tomorrow, 9AM - 12PM'', TimerFires, TimerFires, TimerFires,
      TimerFires, TimerFires, TimerFires]
     (initial [sampleOrder] False)
   \<and> quiescent rescheduleWhileDialing
   \<and> callState rescheduleWhileDialing = AwaitingResponse
   \<and> callState rescheduleWhileDialing \<noteq> Resolved"
  by (simp add: overtakenReschedule_def rescheduleWhileDialing_def quiescent_def
      RESCHEDULE_OPTIONS_def ops sampleOrder_def)

text \<open>
  C5, amended. Let an order \<open>ord\<close> be selected in a reachable state. The operator
  chooses the reschedule response and later, after any timer, utterance and time events,
  picks the slot \<open>slot\<close>. Once nothing is pending any more, whatever the order of the
  events was, the selected order is \<open>ord\<close> with status \<open>confirmed\<close> and delivery slot
  \<open>slot\<close>, and the recorded slot is \<open>slot\<close>. When no timer was pending at the moment
  the reschedule response was chosen, then moreover the outcome is \<open>rescheduled\<close> and the
  state is \<open>resolved\<close>.
\<close>

theorem reschedule_then_slot:
  assumes "reachable fmt initialOrders isBrowser s" and "selectedOrder s = Some ord"
    and "list_all isEnvironment evs" and "list_all isEnvironment evs'"
    and "quiescent (run fmt evs' (handleRescheduleSelection slot
           (run fmt evs (handleCustomerResponse fmt Reschedule s))))"
  shows "selectedOrder (run fmt evs' (handleRescheduleSelection slot
           (run fmt evs (handleCustomerResponse fmt Reschedule s)))) =
           Some (ord\<lparr>status := StatusConfirmed, deliverySlot := slot\<rparr>)
       \<and> rescheduleSlot (run fmt evs' (handleRescheduleSelection slot
           (run fmt evs (handleCustomerResponse fmt Reschedule s)))) = slot
       \<and> (timerQueue s = [] \<longrightarrow>
            callOutcome (run fmt evs' (handleRescheduleSelection slot
              (run fmt evs (handleCustomerResponse fmt Reschedule s)))) = Some OutcomeRescheduled
            \<and> callState (run fmt evs' (handleRescheduleSelection slot
              (run fmt evs (handleCustomerResponse fmt Reschedule s)))) = Resolved)"
proof -
  let ?s1 = "handleCustomerResponse fmt Reschedule s"
  let ?t1 = "run fmt evs ?s1"
  let ?s2 = "handleRescheduleSelection slot ?t1"
  let ?t2 = "run fmt evs' ?s2"
  have "reachable fmt initialOrders isBrowser (step fmt (CustomerResponse Reschedule) s)"
    using assms(1) by (rule reachable_step)
  then have r1: "reachable fmt initialOrders isBrowser ?t1"
    by (intro reachable_run) simp
  have "orders ?s1 = orders s" "selectedOrderId ?s1 = selectedOrderId s"
    using assms(2) by (simp_all add: nf)
  then have "selectedOrder ?s1 = Some ord"
    using selectedOrder_cong [of ?s1 s] assms(2) by simp
  then obtain x y where sel1: "selectedOrder ?t1 = Some (ord\<lparr>status := x, deliverySlot := y\<rparr>)"
    using env_run_selectedOrder [OF _ assms(3), of ?s1 ord fmt] by blast
  have order: "selectedOrder ?t2 = Some (ord\<lparr>status := StatusConfirmed, deliverySlot := slot\<rparr>)"
    using slot_selection_sets_order [OF r1 sel1 assms(4,5)] by simp
  have slot: "rescheduleSlot ?t2 = slot"
    using env_run_invariants(5) [OF assms(4), of fmt ?s2]
      handleRescheduleSelection_frame(2) [OF sel1, of slot] by simp
  have rest: "callOutcome ?t2 = Some OutcomeRescheduled \<and> callState ?t2 = Resolved"
    if tq: "timerQueue s = []"
  proof -
    note mid = after_reschedule_response [OF assms(2) tq reachable_silent [OF assms(1)] assms(3),
        of fmt]
    show ?thesis
      using slot_selection_completes(2,3) [OF mid(1) mid(2) mid(3) assms(4,5)] by simp
  qed
  show ?thesis using order slot rest by simp
qed

theorem reschedule_then_slot_witness:
  "reachable sampleFormat [sampleOrder] False awaitingFirstAnswer
   \<and> selectedOrder awaitingFirstAnswer = Some sampleOrder
   \<and> timerQueue awaitingFirstAnswer = []
   \<and> list_all isEnvironment [TimerFires]
   \<and> list_all isEnvironment [TimerFires, TimerFires, TimerFires]
   \<and> quiescent (run sampleFormat [TimerFires, TimerFires, TimerFires]
        (handleRescheduleSelection ''Tomorrow, 9AM - 12PM''
          (run sampleFormat [TimerFires]
            (handleCustomerResponse sampleFormat Reschedule awaitingFirstAnswer))))
   \<and> selectedOrder (run sampleFormat [TimerFires, TimerFires, TimerFires]
        (handleRescheduleSelection ''Tomorrow, 9AM - 12PM''
          (run sampleFormat [TimerFires]
            (handleCustomerResponse sampleFormat Reschedule awaitingFirstAnswer)))) =
       Some (sampleOrder\<lparr>status := StatusConfirmed, deliverySlot := ''Tomorrow, 9AM - 12PM''\<rparr>)
   \<and> callOutcome (run sampleFormat [TimerFires, TimerFires, TimerFires]
        (handleRescheduleSelection ''Tomorrow, 9AM - 12PM''
          (run sampleFormat [TimerFires]
            (handleCustomerResponse sampleFormat Reschedule awaitingFirstAnswer)))) =
       Some OutcomeRescheduled
   \<and> callState (run sampleFormat [TimerFires, TimerFires, TimerFires]
        (handleRescheduleSelection ''Tomorrow, 9AM - 12PM''
          (run sampleFormat [TimerFires]
            (handleCustomerResponse sampleFormat Reschedule awaitingFirstAnswer)))) = Resolved"
proof -
  have r: "reachable sampleFormat [sampleOrder] False awaitingFirstAnswer"
    unfolding awaitingFirstAnswer_def by (intro reachable_run reachable_initial)
  have o: "selectedOrder awaitingFirstAnswer = Some sampleOrder"
    and q: "timerQueue awaitingFirstAnswer = []"
    by (simp_all add: awaitingFirstAnswer_def ops sampleOrder_def)
  have l: "list_all isEnvironment [TimerFires]"
    and l': "list_all isEnvironment [TimerFires, TimerFires, TimerFires]"
    by simp_all
  have q': "quiescent (run sampleFormat [TimerFires, TimerFires, TimerFires]
        (handleRescheduleSelection ''Tomorrow, 9AM - 12PM''
          (run sampleFormat [TimerFires]
            (handleCustomerResponse sampleFormat Reschedule awaitingFirstAnswer))))"
    by (simp add: awaitingFirstAnswer_def quiescent_def ops sampleOrder_def)
  show ?thesis
    using r o q l l' q' reschedule_then_slot [OF r o l l' q']
    by (simp del: run.simps)
qed

text \<open>
  C10. \<open>handleRescheduleSelection\<close> only checks that an order is selected. In every
  reachable state with a selected order \<open>ord\<close>, whatever the state and the outcome are and
  whatever string \<open>slot\<close> is, it appends the customer line, records \<open>slot\<close>, leaves state
  and outcome as they are and schedules the completion that sets status \<open>confirmed\<close> and
  delivery slot \<open>slot\<close>. When no other timer is pending, then once everything scheduled
  has happened the selected order is \<open>ord\<close> with status \<open>confirmed\<close> and delivery slot
  \<open>slot\<close>, the outcome is \<open>rescheduled\<close> and the state is \<open>resolved\<close>.
\<close>

theorem slot_selection_unguarded:
  assumes "reachable fmt initialOrders isBrowser s" and "selectedOrder s = Some ord"
  shows "conversation (handleRescheduleSelection slot s) =
           conversation s @ [\<lparr>speaker = Customer, message = slotChoiceLine slot,
                               timestamp = clock s, awaitingResponse = None\<rparr>]
       \<and> rescheduleSlot (handleRescheduleSelection slot s) = slot
       \<and> callState (handleRescheduleSelection slot s) = callState s
       \<and> callOutcome (handleRescheduleSelection slot s) = callOutcome s
       \<and> \<lparr>timer_id = nextTimeoutId s + 2, due = clock s + 2300,
           action = CompleteCall OutcomeRescheduled (MarkConfirmedSlot slot) ord\<rparr>
           \<in> set (timerQueue (handleRescheduleSelection slot s))
       \<and> (timerQueue s = [] \<longrightarrow> list_all isEnvironment evs \<longrightarrow>
            quiescent (run fmt evs (handleRescheduleSelection slot s)) \<longrightarrow>
              selectedOrder (run fmt evs (handleRescheduleSelection slot s)) =
                Some (ord\<lparr>status := StatusConfirmed, deliverySlot := slot\<rparr>)
              \<and> callOutcome (run fmt evs (handleRescheduleSelection slot s)) =
                  Some OutcomeRescheduled
              \<and> callState (run fmt evs (handleRescheduleSelection slot s)) = Resolved)"
proof -
  note f = handleRescheduleSelection_frame [OF assms(2), of slot]
  have si: "silent s"
    using assms(1) by (rule reachable_silent)
  have fin: "selectedOrder (run fmt evs (handleRescheduleSelection slot s)) =
                Some (ord\<lparr>status := StatusConfirmed, deliverySlot := slot\<rparr>)
              \<and> callOutcome (run fmt evs (handleRescheduleSelection slot s)) =
                  Some OutcomeRescheduled
              \<and> callState (run fmt evs (handleRescheduleSelection slot s)) = Resolved"
    if tq: "timerQueue s = []" and env: "list_all isEnvironment evs"
      and q: "quiescent (run fmt evs (handleRescheduleSelection slot s))"
  proof -
    have l: "linesDueBy (clock s + 500) (timerQueue s)"
      by (simp add: tq linesDueBy_def)
    show ?thesis
      using slot_selection_completes [OF assms(2) l si env q] by simp
  qed
  show ?thesis
    using f(1) f(2) f(3) f(4) f(9) fin by simp
qed

theorem slot_selection_unguarded_witness:
  "reachable sampleFormat [sampleOrder] False (initial [sampleOrder] False)
   \<and> selectedOrder (initial [sampleOrder] False) = Some sampleOrder
   \<and> callState (initial [sampleOrder] False) = Idle
   \<and> callOutcome (initial [sampleOrder] False) = None
   \<and> rescheduleSlot (handleRescheduleSelection ''Whenever'' (initial [sampleOrder] False)) =
       ''Whenever''
   \<and> quiescent (run sampleFormat [TimerFires, TimerFires, TimerFires]
        (handleRescheduleSelection ''Whenever'' (initial [sampleOrder] False)))
   \<and> selectedOrder (run sampleFormat [TimerFires, TimerFires, TimerFires]
        (handleRescheduleSelection ''Whenever'' (initial [sampleOrder] False))) =
       Some (sampleOrder\<lparr>status := StatusConfirmed, deliverySlot := ''Whenever''\<rparr>)"
proof -
  have r: "reachable sampleFormat [sampleOrder] False (initial [sampleOrder] False)"
    by (rule reachable_initial)
  have o: "selectedOrder (initial [sampleOrder] False) = Some sampleOrder"
    by (simp add: selectedOrder_def initial_def sampleOrder_def)
  have i: "callState (initial [sampleOrder] False) = Idle"
    "callOutcome (initial [sampleOrder] False) = None"
    "timerQueue (initial [sampleOrder] False) = []"
    by (simp_all add: initial_def)
  have l: "list_all isEnvironment [TimerFires, TimerFires, TimerFires]"
    by simp
  have q: "quiescent (run sampleFormat [TimerFires, TimerFires, TimerFires]
        (handleRescheduleSelection ''Whenever'' (initial [sampleOrder] False)))"
    by (simp add: quiescent_def ops sampleOrder_def)
  show ?thesis
    using r o i l q
      slot_selection_unguarded [OF r o, of "''Whenever''"
        "[TimerFires, TimerFires, TimerFires]"]
    by (simp del: run.simps)
qed


section \<open>Leaving the decision point\<close>

lemma list_all_butlast_tl:
  "list_all P (butlast xs) \<Longrightarrow> list_all P (butlast (tl xs))"
  by (cases xs) (auto simp: list_all_iff split: if_splits)

lemma list_all_butlast_prefix:
  "list_all P (butlast (xs @ ys)) \<Longrightarrow> list_all P (butlast xs)"
  by (auto simp: butlast_append list_all_iff dest: in_set_butlastD split: if_splits)

lemma lines_have_options:
  "list_all (\<lambda>t. isAgentLine (action t)) q \<Longrightarrow>
   concat (map (\<lambda>t. optionsOf (action t)) q) = [] \<Longrightarrow> q = []"
  by (cases q) (auto elim: isAgentLine.elims)

lemma awaitingLast_timerFires:
  assumes "awaitingLast s" and "silent s"
  shows "awaitingLast (timerFires s)"
proof (cases "timerQueue s")
  case Nil
  then show ?thesis using assms by (simp add: timerFires_def)
next
  case (Cons x xs)
  show ?thesis
  proof (cases "action x")
    case (AgentLine msg opts)
    show ?thesis
    proof (cases "supported s")
      case True
      then have "callbackEnds (timerFires s) = callbackEnds s"
        using Cons AgentLine by (simp add: nf callbackEnds_def)
      moreover have "list_all (\<lambda>t. isAgentLine (action t)) (timerQueue s) \<Longrightarrow>
                     list_all (\<lambda>t. isAgentLine (action t)) (timerQueue (timerFires s))"
        using Cons AgentLine by (simp add: nf)
      ultimately show ?thesis using assms(1) by (simp add: awaitingLast_def)
    next
      case False
      then have u: "utterances s = []" using assms(2) by (simp add: silent_def)
      have e: "callbackEnds (timerFires s) = tl (callbackEnds s)"
        using Cons AgentLine False u by (simp add: nf callbackEnds_def)
      have q: "timerQueue (timerFires s) = xs"
        using Cons AgentLine by (simp add: nf)
      have l: "tl (callbackEnds s) \<noteq> [] \<Longrightarrow> last (tl (callbackEnds s)) = last (callbackEnds s)"
        by (cases "callbackEnds s") auto
      show ?thesis
        using assms(1) list_all_butlast_tl [of _ "callbackEnds s"] l Cons
        by (auto simp: awaitingLast_def e q split: if_splits)
    qed
  next
    case (CompleteCall outcome upd ord)
    then have e: "callbackEnds (timerFires s) = callbackEnds s"
      and q: "timerQueue (timerFires s) = xs"
      using Cons by (simp_all add: nf callbackEnds_def)
    show ?thesis
      using assms(1) Cons CompleteCall by (auto simp: awaitingLast_def e q split: if_splits)
  qed
qed

lemma awaitingLast_utteranceEnds:
  assumes "awaitingLast s"
  shows "awaitingLast (utteranceEnds s)"
proof (cases "utterances s")
  case Nil
  then show ?thesis using assms by (simp add: utteranceEnds_def)
next
  case (Cons u us)
  have e: "callbackEnds (utteranceEnds s) = tl (callbackEnds s)"
    and q: "timerQueue (utteranceEnds s) = timerQueue s"
    using Cons by (simp_all add: nf callbackEnds_def)
  have l: "tl (callbackEnds s) \<noteq> [] \<Longrightarrow> last (tl (callbackEnds s)) = last (callbackEnds s)"
    by (cases "callbackEnds s") auto
  show ?thesis
    using assms list_all_butlast_tl [of _ "callbackEnds s"] l
    by (auto simp: awaitingLast_def e q split: if_splits)
qed

lemma quiescent_pacedInv: "quiescent s \<Longrightarrow> pacedInv s"
  by (simp add: pacedInv_def quiescent_def tracked_def silent_def awaitingLast_def
      callbackEnds_def atDecisionPoint_def)

lemma atDecisionPoint_timerFires:
  assumes "awaitingLast s" and "silent s" and "atDecisionPoint s"
  shows "atDecisionPoint (timerFires s)"
proof (cases "timerQueue s")
  case Nil
  then show ?thesis using assms(3)
    by (simp add: timerFires_def)
next
  case (Cons x xs)
  show ?thesis
  proof (cases "action x")
    case (AgentLine msg opts)
    show ?thesis
    proof (cases "supported s")
      case True
      then show ?thesis using Cons AgentLine by (simp add: nf atDecisionPoint_def)
    next
      case False
      then have u: "utterances s = []" using assms(2) by (simp add: silent_def)
      have "xs = []" if a: "endState opts = AwaitingResponse"
      proof -
        have e: "callbackEnds s = opts # concat (map (\<lambda>t. optionsOf (action t)) xs)"
          using Cons AgentLine u by (simp add: callbackEnds_def)
        have rest: "concat (map (\<lambda>t. optionsOf (action t)) xs) = []"
          using assms(1) a unfolding awaitingLast_def e
          by (cases "concat (map (\<lambda>t. optionsOf (action t)) xs)") auto
        have "list_all (\<lambda>t. isAgentLine (action t)) (timerQueue s)"
          using assms(1) a rest unfolding awaitingLast_def e by simp
        then have "list_all (\<lambda>t. isAgentLine (action t)) xs"
          using Cons by simp
        then show ?thesis using rest by (rule lines_have_options)
      qed
      then show ?thesis
        using Cons AgentLine False u
        by (auto simp: nf atDecisionPoint_def quiescent_def endState_def)
    qed
  next
    case (CompleteCall outcome upd ord)
    then show ?thesis using Cons by (simp add: nf atDecisionPoint_def)
  qed
qed

lemma atDecisionPoint_utteranceEnds:
  assumes "awaitingLast s" and "atDecisionPoint s"
  shows "atDecisionPoint (utteranceEnds s)"
proof (cases "utterances s")
  case Nil
  then show ?thesis using assms(2) by (simp add: utteranceEnds_def)
next
  case (Cons u us)
  have "us = [] \<and> timerQueue s = []" if a: "endState (utt_onEnd u) = AwaitingResponse"
  proof -
    let ?rest = "map utt_onEnd us @ concat (map (\<lambda>t. optionsOf (action t)) (timerQueue s))"
    have e: "callbackEnds s = utt_onEnd u # ?rest"
      using Cons by (simp add: callbackEnds_def)
    have rest: "?rest = []"
      using assms(1) a unfolding awaitingLast_def e by (cases ?rest) auto
    have "list_all (\<lambda>t. isAgentLine (action t)) (timerQueue s)"
      using assms(1) a rest unfolding awaitingLast_def e by simp
    then have "timerQueue s = []"
      using rest by (intro lines_have_options) simp_all
    then show ?thesis using rest by simp
  qed
  then show ?thesis
    using Cons by (auto simp: nf atDecisionPoint_def quiescent_def endState_def)
qed

lemma awaitingLast_resetCall:
  assumes "awaitingLast s" and "tracked s"
  shows "awaitingLast (resetCall s)"
proof -
  have q: "timerQueue (resetCall s) = []"
    using assms(2) by (simp add: resetCall_eq tracked_filter)
  have e: "callbackEnds (resetCall s) = map utt_onEnd (utterances s)"
    by (simp add: callbackEnds_def q) (simp add: resetCall_eq)
  have "list_all (\<lambda>opts. endState opts \<noteq> AwaitingResponse) (butlast (map utt_onEnd (utterances s)))"
    using assms(1) unfolding awaitingLast_def callbackEnds_def
    by (auto dest: list_all_butlast_prefix)
  then show ?thesis by (simp add: awaitingLast_def e q)
qed

lemma pacedInv_step:
  assumes "paceAllows e s" and "pacedInv s"
  shows "pacedInv (step fmt e s)"
proof -
  have tr: "tracked s" and si: "silent s" and aw: "awaitingLast s" and dp: "atDecisionPoint s"
    using assms(2) by (simp_all add: pacedInv_def)
  have tr': "tracked (step fmt e s)" using tr by (rule tracked_step)
  have si': "silent (step fmt e s)" using si by (rule silent_step)
  have "awaitingLast (step fmt e s) \<and> atDecisionPoint (step fmt e s)"
  proof (cases e)
    case StartCall
    show ?thesis
    proof (cases "selectedOrder s")
      case None
      then show ?thesis using StartCall aw dp by (simp add: startCall_def)
    next
      case (Some ord)
      have u: "utterances s = []" using assms(1) StartCall by simp
      show ?thesis
        using StartCall u
        by (simp add: startCall_eq [OF Some tr] awaitingLast_def callbackEnds_def
            atDecisionPoint_def endState_def)
    qed
  next
    case (CustomerResponse ty)
    have q: "timerQueue s = []" "utterances s = []"
      using assms(1) CustomerResponse by (simp_all add: quiescent_def)
    show ?thesis
    proof (cases "selectedOrder s")
      case None
      then show ?thesis using CustomerResponse aw dp by (simp add: handleCustomerResponse_def)
    next
      case (Some ord)
      then show ?thesis
        using CustomerResponse q
        by (cases ty)
           (simp_all add: nf awaitingLast_def callbackEnds_def atDecisionPoint_def endState_def
              customerSpokeLast_def)
    qed
  next
    case (RescheduleSelection slot)
    have q: "timerQueue s = []" "utterances s = []"
      using assms(1) RescheduleSelection by (simp_all add: quiescent_def)
    show ?thesis
    proof (cases "selectedOrder s")
      case None
      then show ?thesis using RescheduleSelection aw dp
        by (simp add: handleRescheduleSelection_def)
    next
      case (Some ord)
      then show ?thesis
        using RescheduleSelection q
        by (simp add: nf awaitingLast_def callbackEnds_def atDecisionPoint_def endState_def
              customerSpokeLast_def)
    qed
  next
    case EscalateToSupport
    show ?thesis
    proof (cases "selectedOrder s")
      case None
      then show ?thesis using EscalateToSupport aw dp by (simp add: escalateToSupport_def)
    next
      case (Some ord)
      then show ?thesis
        using EscalateToSupport aw
        by (simp add: nf awaitingLast_def callbackEnds_def atDecisionPoint_def)
    qed
  next
    case ToggleMute
    have "callbackEnds (toggleMute s) = callbackEnds s"
      and "timerQueue (toggleMute s) = timerQueue s"
      by (simp_all add: toggleMute_eq callbackEnds_def)
    then have a: "awaitingLast (toggleMute s)"
      using aw by (simp add: awaitingLast_def)
    have "atDecisionPoint (toggleMute s)"
    proof (cases "agentMuted s")
      case True
      then have "quiescent s" using assms(1) ToggleMute by simp
      then show ?thesis using True
        by (simp add: toggleMute_eq atDecisionPoint_def quiescent_def)
    next
      case False
      then show ?thesis by (simp add: toggleMute_eq atDecisionPoint_def)
    qed
    then show ?thesis using a ToggleMute by simp
  next
    case ResetCall
    then show ?thesis
      using awaitingLast_resetCall [OF aw tr]
      by (simp add: atDecisionPoint_def) (simp add: resetCall_eq)
  next
    case (SelectOrder i)
    show ?thesis
    proof (cases "callInFlight s")
      case True
      then show ?thesis using SelectOrder aw dp by (simp add: selectOrder_def)
    next
      case False
      let ?s = "s\<lparr>selectedOrderId := Some i\<rparr>"
      have "awaitingLast ?s" "tracked ?s"
        using aw tr by (simp_all add: awaitingLast_def callbackEnds_def tracked_def)
      then have "awaitingLast (resetCall ?s)" by (rule awaitingLast_resetCall)
      moreover have "atDecisionPoint (resetCall ?s)"
        by (simp add: atDecisionPoint_def) (simp add: resetCall_eq)
      ultimately show ?thesis using SelectOrder False by (simp add: selectOrder_def)
    qed
  next
    case TimerFires
    then show ?thesis
      using awaitingLast_timerFires [OF aw si] atDecisionPoint_timerFires [OF aw si dp] by simp
  next
    case UtteranceEnds
    then show ?thesis
      using awaitingLast_utteranceEnds [OF aw] atDecisionPoint_utteranceEnds [OF aw dp] by simp
  next
    case (Elapse d)
    have "callbackEnds (elapse d s) = callbackEnds s" "timerQueue (elapse d s) = timerQueue s"
      "utterances (elapse d s) = utterances s" "callState (elapse d s) = callState s"
      "conversation (elapse d s) = conversation s"
      by (simp_all add: elapse_def callbackEnds_def)
    then have "awaitingLast (elapse d s)" "atDecisionPoint (elapse d s)"
      using aw dp
      by (simp_all add: awaitingLast_def atDecisionPoint_def quiescent_def customerSpokeLast_def)
    then show ?thesis using Elapse by simp
  qed
  then show ?thesis using tr' si' by (simp add: pacedInv_def)
qed

lemma pacedInv_run:
  assumes "paced fmt evs s" and "pacedInv s"
  shows "pacedInv (run fmt evs s)"
  using assms
proof (induction evs arbitrary: s)
  case Nil
  then show ?case by simp
next
  case (Cons e evs)
  then show ?case by (simp add: pacedInv_step)
qed

text \<open>
  Three more runs that the presentation layer offers. With speech synthesis, a call that
  is restarted while an utterance is in progress is put into \<open>awaiting_response\<close> by the
  event of the cancelled utterance, and the first introduction timer moves it on. When the
  operator answers twice in a row, the line of the first answer brings the session back
  to \<open>awaiting_response\<close> and a timer of the second answer moves it on, with an agent line
  last in the transcript. The same happens when a slot is chosen before the agent has
  offered the menu.
\<close>

lemma restart_while_speaking_leaves_awaiting_response:
  "offeredRun sampleFormat
     [StartCall, TimerFires, TimerFires, EscalateToSupport, StartCall, UtteranceEnds,
      UtteranceEnds, TimerFires]
     (initial [sampleOrder] True)
   \<and> callState restartedWhileSpeaking = AwaitingResponse
   \<and> callState (step sampleFormat TimerFires restartedWhileSpeaking) = Speaking"
  by (simp add: restartedWhileSpeaking_def ops sampleOrder_def)

lemma second_response_leaves_awaiting_response:
  "offeredRun sampleFormat
     [StartCall, TimerFires, TimerFires, CustomerResponse Query, CustomerResponse Confirm,
      TimerFires, TimerFires, TimerFires]
     (initial [sampleOrder] False)
   \<and> callState answeredTwice = AwaitingResponse
   \<and> speaker (last (conversation answeredTwice)) = Agent
   \<and> callState (step sampleFormat TimerFires answeredTwice) = Resolved"
  by (simp add: answeredTwice_def ops sampleOrder_def)

lemma early_slot_leaves_awaiting_response:
  "offeredRun sampleFormat
     [StartCall, TimerFires, TimerFires, CustomerResponse Reschedule,
      RescheduleSelection ''Tomorrow, 9AM - 12PM'', TimerFires, TimerFires]
     (initial [sampleOrder] False)
   \<and> callState slotChosenEarly = AwaitingResponse
   \<and> speaker (last (conversation slotChosenEarly)) = Agent
   \<and> callState (step sampleFormat TimerFires slotChosenEarly) = Speaking"
  by (simp add: slotChosenEarly_def RESCHEDULE_OPTIONS_def ops sampleOrder_def)

text \<open>
  C3, amended. Let the operator keep pace with the agent, from a state in which nothing is
  pending: a customer response or a slot is chosen only while nothing is pending, mute is
  switched off only while nothing is pending, and a call is started only while no
  utterance is in progress. Then whenever the session is in \<open>awaiting_response\<close>, either
  nothing is pending or the last transcript line is the customer line of a response. A
  timer or utterance event takes the session out of \<open>awaiting_response\<close> only in the
  second case, that is as the first callback after an operator-chosen customer response.
  When an agent or system line is last, no sequence of timer, utterance and time events
  changes the state: there is no timeout-based advance. Such events never create a timer.
\<close>

theorem awaiting_response_left_after_response:
  assumes "quiescent s" and "paced fmt evs s"
  shows "(callState (run fmt evs s) = AwaitingResponse \<longrightarrow>
            quiescent (run fmt evs s) \<or> customerSpokeLast (run fmt evs s))
       \<and> (isEnvironment e \<and> callState (run fmt evs s) = AwaitingResponse
            \<and> callState (step fmt e (run fmt evs s)) \<noteq> AwaitingResponse \<longrightarrow>
            customerSpokeLast (run fmt evs s) \<and> \<not> quiescent (run fmt evs s))
       \<and> (list_all isEnvironment evs' \<and> callState (run fmt evs s) = AwaitingResponse
            \<and> \<not> customerSpokeLast (run fmt evs s) \<longrightarrow>
            callState (run fmt evs' (run fmt evs s)) = AwaitingResponse
            \<and> quiescent (run fmt evs' (run fmt evs s)))
       \<and> (list_all isEnvironment evs' \<longrightarrow>
            set (timerQueue (run fmt evs' (run fmt evs s))) \<subseteq> set (timerQueue (run fmt evs s)))"
proof -
  let ?t = "run fmt evs s"
  have "pacedInv ?t"
    using assms by (intro pacedInv_run quiescent_pacedInv)
  then have one: "callState ?t = AwaitingResponse \<longrightarrow> quiescent ?t \<or> customerSpokeLast ?t"
    by (simp add: pacedInv_def atDecisionPoint_def)
  have stay: "callState (step fmt e ?t) = callState ?t" if "quiescent ?t" "isEnvironment e"
    by (subst step_env_quiescent [OF that]) simp
  have two: "customerSpokeLast ?t \<and> \<not> quiescent ?t"
    if "isEnvironment e" "callState ?t = AwaitingResponse"
      "callState (step fmt e ?t) \<noteq> AwaitingResponse"
    using that one stay by auto
  have three: "callState (run fmt evs' ?t) = AwaitingResponse \<and> quiescent (run fmt evs' ?t)"
    if l: "list_all isEnvironment evs'" and a: "callState ?t = AwaitingResponse"
      and n: "\<not> customerSpokeLast ?t"
  proof -
    have q: "quiescent ?t" using one a n by simp
    note eq = run_env_quiescent [OF q l, of fmt]
    have "callState (run fmt evs' ?t) = callState ?t"
      by (subst eq) simp
    moreover have "timerQueue (run fmt evs' ?t) = timerQueue ?t"
      by (subst eq) simp
    moreover have "utterances (run fmt evs' ?t) = utterances ?t"
      by (subst eq) simp
    ultimately show ?thesis using q a by (simp add: quiescent_def)
  qed
  show ?thesis
    using one two three env_run_no_new_timer [of evs' fmt ?t] by blast
qed

theorem awaiting_response_left_after_response_witness:
  "quiescent (initial [sampleOrder] False)
   \<and> paced sampleFormat [StartCall, TimerFires, TimerFires, CustomerResponse Confirm]
       (initial [sampleOrder] False)
   \<and> isEnvironment TimerFires
   \<and> callState confirmChosen = AwaitingResponse
   \<and> callState (step sampleFormat TimerFires confirmChosen) = Speaking
   \<and> customerSpokeLast confirmChosen
   \<and> \<not> quiescent confirmChosen"
proof -
  have q: "quiescent (initial [sampleOrder] False)"
    by (simp add: quiescent_def initial_def)
  have p: "paced sampleFormat [StartCall, TimerFires, TimerFires, CustomerResponse Confirm]
       (initial [sampleOrder] False)"
    by (simp add: quiescent_def ops sampleOrder_def)
  have a: "callState confirmChosen = AwaitingResponse"
    and b: "callState (step sampleFormat TimerFires confirmChosen) = Speaking"
    by (simp_all add: confirmChosen_def ops sampleOrder_def)
  show ?thesis
    using q p a b
      awaiting_response_left_after_response [OF q p, of TimerFires]
    by (simp add: confirmChosen_def del: run.simps step.simps)
qed


end
